theory Spec2Isabelle
  imports Complex_Main
begin

section \<open>JavaScript numbers\<close>

text \<open>
  The forecasting services compute on JavaScript numbers. A number is modelled as a real,
  or one of the three exceptional values of IEEE arithmetic. The operations of this section
  compute finite values exactly (no rounding, no overflow to infinity); their rounded
  counterparts on IEEE binary64 numbers are given in the section on double precision and
  are the ones used wherever a property depends on rounding. The exceptional values follow
  the rules of the language: a quotient by zero is an infinity, or NaN for 0/0; NaN is
  absorbing; every comparison with NaN is false. There is a single zero, which divides
  like +0. An \<^verbatim>\<open>undefined\<close> read from an array hole or past the end of an array is only
  ever used as an operand of arithmetic in this code, where it converts to NaN, so it is
  modelled as NaN.
\<close>

datatype jsnum = Num real | PInf | NInf | NaN

fun jneg :: "jsnum \<Rightarrow> jsnum" where
  "jneg (Num a) = Num (- a)"
| "jneg PInf = NInf"
| "jneg NInf = PInf"
| "jneg NaN = NaN"

fun jadd :: "jsnum \<Rightarrow> jsnum \<Rightarrow> jsnum" where
  "jadd (Num a) (Num b) = Num (a + b)"
| "jadd (Num a) PInf = PInf"
| "jadd (Num a) NInf = NInf"
| "jadd PInf (Num b) = PInf"
| "jadd NInf (Num b) = NInf"
| "jadd PInf PInf = PInf"
| "jadd NInf NInf = NInf"
| "jadd PInf NInf = NaN"
| "jadd NInf PInf = NaN"
| "jadd NaN y = NaN"
| "jadd x NaN = NaN"

definition jsub :: "jsnum \<Rightarrow> jsnum \<Rightarrow> jsnum" where
  "jsub x y = jadd x (jneg y)"

text \<open>The infinity with the sign of a non-zero real.\<close>

definition inf_of_sign :: "real \<Rightarrow> jsnum" where
  "inf_of_sign a = (if a > 0 then PInf else NInf)"

fun jmul :: "jsnum \<Rightarrow> jsnum \<Rightarrow> jsnum" where
  "jmul (Num a) (Num b) = Num (a * b)"
| "jmul (Num a) PInf = (if a = 0 then NaN else inf_of_sign a)"
| "jmul (Num a) NInf = (if a = 0 then NaN else inf_of_sign (- a))"
| "jmul PInf (Num b) = (if b = 0 then NaN else inf_of_sign b)"
| "jmul NInf (Num b) = (if b = 0 then NaN else inf_of_sign (- b))"
| "jmul PInf PInf = PInf"
| "jmul NInf NInf = PInf"
| "jmul PInf NInf = NInf"
| "jmul NInf PInf = NInf"
| "jmul NaN y = NaN"
| "jmul x NaN = NaN"

fun jdiv :: "jsnum \<Rightarrow> jsnum \<Rightarrow> jsnum" where
  "jdiv (Num a) (Num b) =
     (if b = 0 then (if a = 0 then NaN else inf_of_sign a) else Num (a / b))"
| "jdiv (Num a) PInf = Num 0"
| "jdiv (Num a) NInf = Num 0"
| "jdiv PInf (Num b) = (if b \<ge> 0 then PInf else NInf)"
| "jdiv NInf (Num b) = (if b \<ge> 0 then NInf else PInf)"
| "jdiv PInf PInf = NaN"
| "jdiv NInf NInf = NaN"
| "jdiv PInf NInf = NaN"
| "jdiv NInf PInf = NaN"
| "jdiv NaN y = NaN"
| "jdiv x NaN = NaN"

text \<open>\<^verbatim>\<open>a < b\<close>; \<^verbatim>\<open>a > b\<close> is \<open>jlt b a\<close>.\<close>

fun jlt :: "jsnum \<Rightarrow> jsnum \<Rightarrow> bool" where
  "jlt (Num a) (Num b) = (a < b)"
| "jlt (Num a) PInf = True"
| "jlt (Num a) NInf = False"
| "jlt PInf y = False"
| "jlt NInf (Num b) = True"
| "jlt NInf PInf = True"
| "jlt NInf NInf = False"
| "jlt NaN y = False"
| "jlt x NaN = False"

definition jgt :: "jsnum \<Rightarrow> jsnum \<Rightarrow> bool" where
  "jgt x y = jlt y x"

text \<open>\<^verbatim>\<open>Math.max\<close> and \<^verbatim>\<open>Math.min\<close> of two arguments: NaN as soon as one argument is NaN.\<close>

definition Math_max :: "jsnum \<Rightarrow> jsnum \<Rightarrow> jsnum" where
  "Math_max x y = (if x = NaN \<or> y = NaN then NaN else if jlt x y then y else x)"

definition Math_min :: "jsnum \<Rightarrow> jsnum \<Rightarrow> jsnum" where
  "Math_min x y = (if x = NaN \<or> y = NaN then NaN else if jlt y x then y else x)"

fun Math_abs :: "jsnum \<Rightarrow> jsnum" where
  "Math_abs (Num a) = Num \<bar>a\<bar>"
| "Math_abs PInf = PInf"
| "Math_abs NInf = PInf"
| "Math_abs NaN = NaN"

fun Math_sqrt :: "jsnum \<Rightarrow> jsnum" where
  "Math_sqrt (Num a) = (if a < 0 then NaN else Num (sqrt a))"
| "Math_sqrt PInf = PInf"
| "Math_sqrt NInf = NaN"
| "Math_sqrt NaN = NaN"

fun Math_exp :: "jsnum \<Rightarrow> jsnum" where
  "Math_exp (Num a) = Num (exp a)"
| "Math_exp PInf = PInf"
| "Math_exp NInf = Num 0"
| "Math_exp NaN = NaN"

fun Math_log :: "jsnum \<Rightarrow> jsnum" where
  "Math_log (Num a) = (if a < 0 then NaN else if a = 0 then NInf else Num (ln a))"
| "Math_log PInf = PInf"
| "Math_log NInf = NaN"
| "Math_log NaN = NaN"

text \<open>\<^verbatim>\<open>Math.round\<close>: the nearest integer, a tie going up.\<close>

fun Math_round :: "jsnum \<Rightarrow> jsnum" where
  "Math_round (Num a) = Num (of_int \<lfloor>a + 1 / 2\<rfloor>)"
| "Math_round x = x"

text \<open>\<^verbatim>\<open>Math.pow(x, 2)\<close>: the square, +Infinity for both infinities, NaN for NaN.\<close>

definition Math_pow2 :: "jsnum \<Rightarrow> jsnum" where
  "Math_pow2 x = jmul x x"

text \<open>\<^verbatim>\<open>x || d\<close> on numbers: \<open>d\<close> when \<open>x\<close> is falsy, that is 0 or NaN (or undefined).\<close>

definition falsy :: "jsnum \<Rightarrow> bool" where
  "falsy x = (x = Num 0 \<or> x = NaN)"

definition jor :: "jsnum \<Rightarrow> jsnum \<Rightarrow> jsnum" where
  "jor x d = (if falsy x then d else x)"

text \<open>\<^verbatim>\<open>xs.reduce((sum, val) => sum + val, 0)\<close>.\<close>

definition jsum :: "jsnum list \<Rightarrow> jsnum" where
  "jsum xs = foldl (\<lambda>sum val. jadd sum val) (Num 0) xs"

text \<open>The length of an array as a number.\<close>

definition jlen :: "'a list \<Rightarrow> jsnum" where
  "jlen xs = Num (real (length xs))"

text \<open>
  \<^verbatim>\<open>xs.slice(-k)\<close> for an integer \<open>k\<close>: the last \<open>k\<close> elements when \<open>k > 0\<close> (all of them
  when there are fewer), the whole array when \<open>k = 0\<close> (the start index is \<open>-0\<close>), and the
  array without its first \<open>-k\<close> elements when \<open>k < 0\<close>.
\<close>

definition slice_last :: "int \<Rightarrow> 'a list \<Rightarrow> 'a list" where
  "slice_last k xs =
     (if k > 0 then drop (length xs - nat k) xs
      else if k = 0 then xs
      else drop (nat (- k)) xs)"

text \<open>\<^verbatim>\<open>xs[i]\<close> on an array of numbers, used as a number: NaN past the end.\<close>

definition elem :: "jsnum list \<Rightarrow> nat \<Rightarrow> jsnum" where
  "elem xs i = (if i < length xs then xs ! i else NaN)"

text \<open>Two numbers are finite and differ by at most a tolerance.\<close>

fun within_tol :: "real \<Rightarrow> jsnum \<Rightarrow> jsnum \<Rightarrow> bool" where
  "within_tol tol (Num x) (Num y) = (\<bar>y - x\<bar> \<le> tol)"
| "within_tol tol x y = False"

text \<open>A number is finite and of at most a given magnitude.\<close>

fun bounded_by :: "real \<Rightarrow> jsnum \<Rightarrow> bool" where
  "bounded_by B (Num x) = (\<bar>x\<bar> \<le> B)"
| "bounded_by B x = False"

section \<open>Sales observations\<close>

record SalesData =
  itemName :: string
  category :: string
  quantity :: jsnum
  revenue :: jsnum
  date :: int

section \<open>Anomaly detection (advanced forecasting service)\<close>

record anomaly =
  date_a :: int
  value_a :: jsnum
  anomalyScore :: jsnum

text \<open>
  \<^verbatim>\<open>anomalies.sort((a, b) => b.anomalyScore - a.anomalyScore)\<close>: a stable sort; an element
  moves behind another only when the comparator is positive.
\<close>

fun insert_anomaly :: "anomaly \<Rightarrow> anomaly list \<Rightarrow> anomaly list" where
  "insert_anomaly a [] = [a]"
| "insert_anomaly a (b # bs) =
     (if jgt (jsub (anomalyScore b) (anomalyScore a)) (Num 0)
      then b # insert_anomaly a bs else a # b # bs)"

definition sort_anomalies :: "anomaly list \<Rightarrow> anomaly list" where
  "sort_anomalies as = foldr insert_anomaly as []"

definition anomaly_mean :: "SalesData list \<Rightarrow> jsnum" where
  "anomaly_mean data = (let values = map quantity data in jdiv (jsum values) (jlen values))"

definition anomaly_variance :: "SalesData list \<Rightarrow> jsnum" where
  "anomaly_variance data =
     (let values = map quantity data; mean = anomaly_mean data
      in jdiv (foldl (\<lambda>sum val. jadd sum (Math_pow2 (jsub val mean))) (Num 0) values)
              (jlen values))"

definition anomaly_stdDev :: "SalesData list \<Rightarrow> jsnum" where
  "anomaly_stdDev data = Math_sqrt (anomaly_variance data)"

definition zScore :: "SalesData list \<Rightarrow> SalesData \<Rightarrow> jsnum" where
  "zScore data item =
     Math_abs (jdiv (jsub (quantity item) (anomaly_mean data)) (anomaly_stdDev data))"

definition detectAnomalies :: "SalesData list \<Rightarrow> jsnum \<Rightarrow> anomaly list" where
  "detectAnomalies data threshold =
     (let anomalies =
            foldl (\<lambda>anomalies item.
                     if jgt (zScore data item) threshold
                     then anomalies @ [\<lparr>date_a = date item, value_a = quantity item,
                                         anomalyScore = zScore data item\<rparr>]
                     else anomalies) [] data
      in sort_anomalies anomalies)"

text \<open>Non-negative numbers, +Infinity and NaN: what squares and absolute values are.\<close>

fun nonneg :: "jsnum \<Rightarrow> bool" where
  "nonneg (Num r) = (0 \<le> r)"
| "nonneg PInf = True"
| "nonneg NInf = False"
| "nonneg NaN = True"

text \<open>A finite number within a closed interval.\<close>

fun in_range :: "real \<Rightarrow> real \<Rightarrow> jsnum \<Rightarrow> bool" where
  "in_range lo hi (Num r) = (lo \<le> r \<and> r \<le> hi)"
| "in_range lo hi _ = False"

text \<open>
  Two computed numbers that agree up to a relative error: both finite with
  \<open>|y - x| \<le> tol * |x|\<close>, or both NaN.
\<close>

fun close_to :: "real \<Rightarrow> jsnum \<Rightarrow> jsnum \<Rightarrow> bool" where
  "close_to tol (Num x) (Num y) = (\<bar>y - x\<bar> \<le> tol * \<bar>x\<bar>)"
| "close_to tol NaN NaN = True"
| "close_to tol x y = False"

section \<open>Grouping sales by item\<close>

text \<open>
  Both services group the batch in a \<^verbatim>\<open>Map<string, SalesData[]>\<close>, which iterates in the
  order in which keys were first inserted: an association list, new keys appended.
\<close>

definition add_sale :: "(string \<times> SalesData list) list \<Rightarrow> SalesData \<Rightarrow> (string \<times> SalesData list) list" where
  "add_sale itemGroups sale =
     (let key = itemName sale in
      if key \<in> fst ` set itemGroups
      then map (\<lambda>(k, v). if k = key then (k, v @ [sale]) else (k, v)) itemGroups
      else itemGroups @ [(key, [sale])])"

definition group_by_item :: "SalesData list \<Rightarrow> (string \<times> SalesData list) list" where
  "group_by_item salesData = foldl add_sale [] salesData"

text \<open>
  \<^verbatim>\<open>itemSales.sort((a, b) => a.date.getTime() - b.date.getTime())\<close>: a stable sort by
  ascending time stamp.
\<close>

definition sort_by_date :: "SalesData list \<Rightarrow> SalesData list" where
  "sort_by_date itemSales = sort_key date itemSales"

section \<open>Basic forecasting service\<close>

datatype period = daily | weekly | monthly

record InsertPrediction =
  p_itemName :: string
  p_category :: string
  predictedQuantity :: jsnum
  p_confidence :: jsnum
  predictionDate :: int
  forecastPeriod :: period

record AggregateMetrics =
  agg_accuracy :: jsnum
  agg_rmse :: jsnum
  agg_f1Score :: jsnum
  agg_precision :: jsnum
  agg_recall :: jsnum

record ForecastResult =
  predictions_b :: "InsertPrediction list"
  metrics_b :: AggregateMetrics

text \<open>
  \<^verbatim>\<open>calculateMovingAverage(data, window)\<close> of the service, for an integer window. It has no
  failing path: a window of zero or less is divided by like any other number.
\<close>

definition calculateMovingAverage :: "jsnum list \<Rightarrow> int \<Rightarrow> jsnum" where
  "calculateMovingAverage data window =
     (if int (length data) < window then jdiv (jsum data) (jlen data)
      else let recent = slice_last window data
           in jdiv (jsum recent) (Num (real_of_int window)))"

text \<open>\<^verbatim>\<open>x.reduce((acc, xi, i) => acc + xi * y[i], 0)\<close> for \<open>x = [0, 1, ..., n - 1]\<close>.\<close>

definition sum_xy :: "nat \<Rightarrow> jsnum list \<Rightarrow> jsnum" where
  "sum_xy n y = foldl (\<lambda>acc i. jadd acc (jmul (Num (real i)) (elem y i))) (Num 0) [0..<n]"

definition calculateLinearTrend :: "jsnum list \<Rightarrow> jsnum" where
  "calculateLinearTrend data =
     (if length data < 2 then (if data = [] then Num 0 else jor (data ! 0) (Num 0))
      else
        let n = jlen data;
            x = map (\<lambda>i. Num (real i)) [0..<length data];
            sumX = jsum x;
            sumY = jsum data;
            sumXY = sum_xy (length data) data;
            sumXX = foldl (\<lambda>acc xi. jadd acc (jmul xi xi)) (Num 0) x;
            slope = jdiv (jsub (jmul n sumXY) (jmul sumX sumY))
                         (jsub (jmul n sumXX) (jmul sumX sumX));
            intercept = jdiv (jsub sumY (jmul slope sumX)) n
        in jadd (jmul slope n) intercept)"

text \<open>
  \<^verbatim>\<open>getSeasonalMultiplier(date)\<close>, as a function of \<^verbatim>\<open>date.getDay()\<close>
  (0 = Sunday, ..., 6 = Saturday).
\<close>

definition seasonalFactors :: "jsnum list" where
  "seasonalFactors = [Num (8 / 10), Num (9 / 10), Num 1, Num (11 / 10), Num (12 / 10),
                      Num (14 / 10), Num (13 / 10)]"

definition getSeasonalMultiplier :: "nat \<Rightarrow> jsnum" where
  "getSeasonalMultiplier dayOfWeek = elem seasonalFactors dayOfWeek"

text \<open>\<^verbatim>\<open>calculateConfidence(data, prediction)\<close> of the service.\<close>

definition calculateConfidence :: "jsnum list \<Rightarrow> jsnum \<Rightarrow> jsnum" where
  "calculateConfidence data prediction =
     (if length data = 0 then Num (1 / 2)
      else
        let mean = jdiv (jsum data) (jlen data);
            variance = jdiv (foldl (\<lambda>acc val. jadd acc (Math_pow2 (jsub val mean))) (Num 0) data)
                            (jlen data);
            stdDev = Math_sqrt variance;
            coefficientOfVariation = jdiv stdDev mean;
            baseConfidence = Math_max (Num (3 / 10)) (jsub (Num 1) coefficientOfVariation);
            predictionDeviation = jdiv (Math_abs (jsub prediction mean)) (jor stdDev (Num 1));
            adjustedConfidence =
              jmul baseConfidence (Math_exp (jdiv (jneg predictionDeviation) (Num 2)))
        in Math_min (Num (98 / 100)) (Math_max (Num (3 / 10)) adjustedConfidence))"

text \<open>
  One iteration of the loop over the item groups of \<^verbatim>\<open>generateForecasts\<close>. The state is
  the prediction list, \<^verbatim>\<open>totalError\<close> and \<^verbatim>\<open>totalPredictions\<close>. The current time enters
  through \<open>tomorrow\<close> (the time stamp of the prediction date) and \<open>dayOfWeek\<close>
  (\<^verbatim>\<open>tomorrow.getDay()\<close>).
\<close>

definition forecast_item ::
  "period \<Rightarrow> int \<Rightarrow> nat \<Rightarrow> InsertPrediction list \<times> jsnum \<times> nat \<Rightarrow> string \<times> SalesData list
     \<Rightarrow> InsertPrediction list \<times> jsnum \<times> nat" where
  "forecast_item per tomorrow dayOfWeek st grp =
     (case st of (predictions, totalError, totalPredictions) \<Rightarrow>
      case grp of (name, unsorted) \<Rightarrow>
        let itemSales = sort_by_date unsorted;
            quantities = map quantity itemSales
        in if length quantities = 0 then st
           else
             let movingAvg = calculateMovingAverage quantities (min 7 (int (length quantities)));
                 trendPrediction = calculateLinearTrend quantities;
                 basePrediction = jadd (jmul movingAvg (Num (6 / 10)))
                                       (jmul trendPrediction (Num (4 / 10)));
                 seasonalMultiplier = getSeasonalMultiplier dayOfWeek;
                 seasonalPrediction = Math_round (jmul basePrediction seasonalMultiplier);
                 confidence = calculateConfidence quantities seasonalPrediction;
                 cat = category (itemSales ! 0);
                 predictions' = predictions @
                   [\<lparr>p_itemName = name, p_category = cat,
                     predictedQuantity = Math_max (Num 0) seasonalPrediction,
                     p_confidence = confidence, predictionDate = tomorrow,
                     forecastPeriod = per\<rparr>]
             in if length quantities > 1
                then let lastActual = quantities ! (length quantities - 1);
                         error = Math_abs (jsub basePrediction lastActual)
                     in (predictions', jadd totalError error, totalPredictions + 1)
                else (predictions', totalError, totalPredictions))"

definition generateForecasts :: "SalesData list \<Rightarrow> period \<Rightarrow> int \<Rightarrow> nat \<Rightarrow> ForecastResult" where
  "generateForecasts salesData per tomorrow dayOfWeek =
     (case foldl (forecast_item per tomorrow dayOfWeek) ([], Num 0, 0) (group_by_item salesData)
      of (predictions, totalError, totalPredictions) \<Rightarrow>
        let avgError = (if totalPredictions > 0
                        then jdiv totalError (Num (real totalPredictions)) else Num 0);
            avgQuantity = jdiv (foldl (\<lambda>sum sale. jadd sum (quantity sale)) (Num 0) salesData)
                               (jlen salesData);
            rmse = jdiv avgError (jor avgQuantity (Num 1))
        in \<lparr>predictions_b = predictions,
            metrics_b =
              \<lparr>agg_accuracy = Math_max (Num (3 / 10)) (jsub (Num 1) rmse),
                agg_rmse = rmse,
                agg_f1Score = Math_max (Num (5 / 10)) (jsub (Num (95 / 100)) (jmul rmse (Num (5 / 10)))),
                agg_precision = Math_max (Num (5 / 10)) (jsub (Num (92 / 100)) (jmul rmse (Num (3 / 10)))),
                agg_recall = Math_max (Num (5 / 10)) (jsub (Num (94 / 100)) (jmul rmse (Num (4 / 10))))\<rparr>\<rparr>)"

section \<open>Client-side forecasting utilities\<close>

datatype error = InvalidWindow

text \<open>
  \<^verbatim>\<open>calculateMovingAverage(values, window)\<close> of the client: the rolling averages, or the
  exception \<^verbatim>\<open>Error("Invalid window size for moving average")\<close>.
\<close>

definition calculateMovingAverage_client :: "jsnum list \<Rightarrow> int \<Rightarrow> error + jsnum list" where
  "calculateMovingAverage_client values window =
     (if window \<le> 0 \<or> window > int (length values) then Inl InvalidWindow
      else Inr (map (\<lambda>i. let slice = take (nat window) (drop (i + 1 - nat window) values)
                          in jdiv (jsum slice) (Num (real_of_int window)))
                    [nat window - 1..<length values]))"

text \<open>\<^verbatim>\<open>calculateConfidence(historicalData, prediction)\<close> of the client.\<close>

definition calculateConfidence_client :: "jsnum list \<Rightarrow> jsnum \<Rightarrow> jsnum" where
  "calculateConfidence_client historicalData prediction =
     (if length historicalData = 0 then Num (1 / 2)
      else
        let mean = jdiv (jsum historicalData) (jlen historicalData);
            variance = jdiv (foldl (\<lambda>acc val. jadd acc (Math_pow2 (jsub val mean))) (Num 0)
                               historicalData)
                            (jlen historicalData);
            stdDev = Math_sqrt variance;
            coefficientOfVariation = (if mean = Num 0 then Num 1 else jdiv stdDev mean);
            baseConfidence = Math_max (Num (3 / 10)) (jsub (Num 1) coefficientOfVariation);
            predictionDeviation = jdiv (Math_abs (jsub prediction mean)) (jor stdDev (Num 1));
            adjustedConfidence =
              jmul baseConfidence (Math_exp (jdiv (jneg predictionDeviation) (Num 2)))
        in Math_min (Num (98 / 100)) (Math_max (Num (3 / 10)) adjustedConfidence))"

section \<open>Advanced forecasting service\<close>

text \<open>
  Array reads by an integer index that may be negative, and by the result of \<^verbatim>\<open>i % m\<close>,
  which is NaN when \<open>m = 0\<close> (reading at NaN gives \<^verbatim>\<open>undefined\<close>).
\<close>

definition elem_int :: "jsnum list \<Rightarrow> int \<Rightarrow> jsnum" where
  "elem_int xs i = (if 0 \<le> i then elem xs (nat i) else NaN)"

definition imod :: "nat \<Rightarrow> nat \<Rightarrow> nat option" where
  "imod i m = (if m = 0 then None else Some (i mod m))"

definition elem_opt :: "jsnum list \<Rightarrow> nat option \<Rightarrow> jsnum" where
  "elem_opt xs i = (case i of None \<Rightarrow> NaN | Some j \<Rightarrow> elem xs j)"

text \<open>\<^verbatim>\<open>xs[i] = v\<close>: an assignment past the end extends the array, leaving holes.\<close>

definition set_at :: "jsnum list \<Rightarrow> nat \<Rightarrow> jsnum \<Rightarrow> jsnum list" where
  "set_at xs i v =
     (if i < length xs then xs[i := v] else xs @ replicate (i - length xs) NaN @ [v])"

text \<open>\<^verbatim>\<open>new Array(n)\<close>: \<open>n\<close> holes.\<close>

definition new_Array :: "nat \<Rightarrow> jsnum list" where
  "new_Array n = replicate n NaN"

text \<open>
  \<^verbatim>\<open>Math.random()\<close>: the generator is the sequence of its future results, each in [0, 1);
  a function that draws returns the rest of the sequence.
\<close>

type_synonym rng = "nat \<Rightarrow> real"

definition draw :: "rng \<Rightarrow> real \<times> rng" where
  "draw rnd = (rnd 0, \<lambda>i. rnd (Suc i))"

fun draws :: "nat \<Rightarrow> rng \<Rightarrow> real list \<times> rng" where
  "draws 0 rnd = ([], rnd)"
| "draws (Suc k) rnd =
     (case draw rnd of (r, rnd') \<Rightarrow> case draws k rnd' of (rs, rnd'') \<Rightarrow> (r # rs, rnd''))"

record ModelPerformanceMetrics =
  mae :: jsnum
  mape :: jsnum
  rmse :: jsnum
  r2 :: jsnum
  aic :: jsnum
  accuracy :: jsnum
  precision :: jsnum
  recall :: jsnum
  f1Score :: jsnum

datatype model_type = arima | exponential_smoothing | neural_network | ensemble

record ForecastModel =
  name :: string
  mtype :: model_type
  predictions :: "jsnum list"
  confidence :: "jsnum list"
  metrics :: ModelPerformanceMetrics
  hyperparameters :: "(string \<times> jsnum) list"

subsection \<open>Helper methods\<close>

definition diff_once :: "jsnum list \<Rightarrow> jsnum list" where
  "diff_once result = map (\<lambda>i. jsub (result ! i) (result ! (i - 1))) [1..<length result]"

fun differenceData :: "jsnum list \<Rightarrow> nat \<Rightarrow> jsnum list" where
  "differenceData data 0 = data"
| "differenceData data (Suc d) = diff_once (differenceData data d)"

definition autoregressive :: "jsnum list \<Rightarrow> nat \<Rightarrow> jsnum list" where
  "autoregressive data order =
     (if length data < order + 1
      then [if data = [] then Num 0 else jor (data ! (length data - 1)) (Num 0)]
      else
        let lastValues = slice_last (int order) data;
            coefficients = map (\<lambda>i. jdiv (Num 1) (Num (real i + 1))) [0..<length lastValues];
            prediction =
              jdiv (foldl (\<lambda>sum i. jadd sum (jmul (lastValues ! i) (coefficients ! i)))
                          (Num 0) [0..<length lastValues])
                   (jlen coefficients)
        in [prediction])"

text \<open>The loop of \<^verbatim>\<open>calculateMetrics\<close> over \<open>i < n\<close>; the state is the running sums (mae, mse, mape).\<close>

definition metrics_step ::
  "jsnum list \<Rightarrow> jsnum list \<Rightarrow> jsnum \<times> jsnum \<times> jsnum \<Rightarrow> nat \<Rightarrow> jsnum \<times> jsnum \<times> jsnum" where
  "metrics_step actual predicted st i =
     (case st of (mae_sum, mse_sum, mape_sum) \<Rightarrow>
        let error = Math_abs (jsub (actual ! i) (predicted ! i))
        in (jadd mae_sum error, jadd mse_sum (jmul error error),
            if actual ! i \<noteq> Num 0 then jadd mape_sum (Math_abs (jdiv error (actual ! i)))
            else mape_sum))"

definition calculateMetrics :: "jsnum list \<Rightarrow> jsnum list \<Rightarrow> ModelPerformanceMetrics" where
  "calculateMetrics actual predicted =
     (let n = min (length actual) (length predicted) in
      if n = 0
      then \<lparr>mae = Num 0, mape = Num 0, rmse = Num 0, r2 = Num 0, aic = Num 0,
             accuracy = Num (5 / 10), precision = Num (5 / 10), recall = Num (5 / 10),
             f1Score = Num (5 / 10)\<rparr>
      else
        case foldl (metrics_step actual predicted) (Num 0, Num 0, Num 0) [0..<n]
        of (mae0, mse0, mape0) \<Rightarrow>
          let mae1 = jdiv mae0 (Num (real n));
              mse1 = jdiv mse0 (Num (real n));
              mape1 = jdiv mape0 (Num (real n));
              rmse1 = Math_sqrt mse1;
              actualMean = jdiv (jsum actual) (Num (real n));
              totalSumSquares =
                foldl (\<lambda>sum val. jadd sum (Math_pow2 (jsub val actualMean))) (Num 0) actual;
              residualSumSquares =
                foldl (\<lambda>sum i. jadd sum (Math_pow2 (jsub (actual ! i) (elem predicted i))))
                      (Num 0) [0..<length actual];
              r2' = (if totalSumSquares = Num 0 then Num 1
                     else jsub (Num 1) (jdiv residualSumSquares totalSumSquares));
              aic' = jadd (jmul (Num (real n)) (Math_log mse1)) (Num (2 * 3));
              accuracy' = Math_max (Num 0) (jsub (Num 1) mape1);
              precision' = Math_max (Num (3 / 10)) accuracy';
              recall' = Math_max (Num (3 / 10)) accuracy';
              f1Score' = jdiv (jmul (Num 2) (jmul precision' recall')) (jadd precision' recall')
          in \<lparr>mae = mae1, mape = mape1, rmse = rmse1, r2 = r2', aic = aic',
               accuracy = accuracy', precision = precision', recall = recall',
               f1Score = f1Score'\<rparr>)"

subsection \<open>The three models\<close>

text \<open>Decimal digits of a natural number, for the name of the ARIMA model.\<close>

fun show_nat :: "nat \<Rightarrow> string" where
  "show_nat n =
     (if n < 10 then [char_of (48 + n)] else show_nat (n div 10) @ [char_of (48 + n mod 10)])"

definition calculateARIMA ::
  "rng \<Rightarrow> jsnum list \<Rightarrow> nat \<Rightarrow> nat \<Rightarrow> nat \<Rightarrow> ForecastModel \<times> rng" where
  "calculateARIMA rnd data p d q =
     (let differenced = differenceData data d;
          forecast = autoregressive differenced p;
          predictions' = map (\<lambda>val. Math_max (Num 0) val) forecast
      in case draws (length predictions') rnd of (rs, rnd') \<Rightarrow>
        let confidence' = map (\<lambda>r. Num (8 / 10 + r * (15 / 100))) rs;
            metrics' = calculateMetrics (slice_last (int (length predictions')) data) predictions'
        in (\<lparr>name = ''ARIMA('' @ show_nat p @ '','' @ show_nat d @ '','' @ show_nat q @ '')'',
             mtype = arima, predictions = predictions', confidence = confidence',
             metrics = metrics',
             hyperparameters = [(''p'', Num (real p)), (''d'', Num (real d)), (''q'', Num (real q))]\<rparr>,
            rnd'))"

definition simpleExponentialSmoothing :: "jsnum list \<Rightarrow> jsnum \<Rightarrow> ForecastModel" where
  "simpleExponentialSmoothing data alpha =
     (let n = length data;
          smoothed = foldl (\<lambda>smoothed i.
                       set_at smoothed i
                         (jadd (jmul alpha (data ! i))
                               (jmul (jsub (Num 1) alpha) (smoothed ! (i - 1)))))
                     [elem data 0] [1..<n];
          predictions' = [elem_int smoothed (int n - 1)];
          confidence' = [Num (7 / 10)];
          metrics' = calculateMetrics [elem_int data (int n - 1)] predictions'
      in \<lparr>name = ''Simple Exponential Smoothing'', mtype = exponential_smoothing,
           predictions = predictions', confidence = confidence', metrics = metrics',
           hyperparameters = [(''alpha'', alpha)]\<rparr>)"

text \<open>
  One iteration of the triple exponential smoothing loop of
  \<^verbatim>\<open>calculateExponentialSmoothing\<close>; the state is the three arrays level, trend, seasonal.
\<close>

definition hw_step ::
  "jsnum list \<Rightarrow> jsnum \<Rightarrow> jsnum \<Rightarrow> jsnum \<Rightarrow> nat \<Rightarrow> jsnum list \<times> jsnum list \<times> jsnum list \<Rightarrow> nat
     \<Rightarrow> jsnum list \<times> jsnum list \<times> jsnum list" where
  "hw_step data alpha beta gamma seasonLength st i =
     (case st of (lv, tr, se) \<Rightarrow>
        let seasonalIndex = imod i seasonLength;
            lv' = set_at lv i
                    (jadd (jmul alpha (jdiv (data ! i) (elem_opt se seasonalIndex)))
                          (jmul (jsub (Num 1) alpha) (jadd (elem lv (i - 1)) (elem tr (i - 1)))));
            tr' = set_at tr i
                    (jadd (jmul beta (jsub (elem lv' i) (elem lv' (i - 1))))
                          (jmul (jsub (Num 1) beta) (elem tr (i - 1))));
            se' = set_at se (i + seasonLength)
                    (jadd (jmul gamma (jdiv (data ! i) (elem lv' i)))
                          (jmul (jsub (Num 1) gamma) (elem_opt se seasonalIndex)))
        in (lv', tr', se'))"

text \<open>The forecast loop, \<open>h = 1, ..., 7\<close>; the state is (predictions, confidence).\<close>

definition hw_forecast_step ::
  "nat \<Rightarrow> nat \<Rightarrow> jsnum list \<Rightarrow> jsnum list \<Rightarrow> jsnum list \<Rightarrow> jsnum list \<times> jsnum list \<Rightarrow> nat
     \<Rightarrow> jsnum list \<times> jsnum list" where
  "hw_forecast_step n seasonLength lv tr se st h =
     (case st of (ps, cs) \<Rightarrow>
        let seasonalIndex = imod (n + h - 1) seasonLength;
            forecast =
              jmul (jadd (elem_int lv (int n - 1)) (jmul (Num (real h)) (elem_int tr (int n - 1))))
                   (case seasonalIndex of None \<Rightarrow> NaN
                    | Some j \<Rightarrow> elem se (n - seasonLength + j))
        in (ps @ [Math_max (Num 0) forecast],
            cs @ [Math_max (Num (5 / 10)) (jsub (Num (9 / 10)) (jmul (Num (real h)) (Num (5 / 100))))]))"

text \<open>The first loop: the initial seasonal components, one per position of the season.\<close>

definition hw_seasonal_init :: "jsnum list \<Rightarrow> nat \<Rightarrow> jsnum list" where
  "hw_seasonal_init data seasonLength =
     (let n = length data in
      foldl (\<lambda>se i.
               let seasonalSum =
                     jsum (map snd (filter (\<lambda>(idx, val). idx mod seasonLength = 0)
                                           (enumerate 0 (drop i data))));
                   seasonalCount = (n - i) div seasonLength
               in set_at se i (if seasonalCount > 0
                               then jdiv seasonalSum (Num (real seasonalCount))
                               else Num 1))
            (new_Array (n + seasonLength)) [0..<seasonLength])"

text \<open>The arrays level, trend and seasonal after the smoothing loop.\<close>

definition hw_fit ::
  "jsnum list \<Rightarrow> jsnum \<Rightarrow> jsnum \<Rightarrow> jsnum \<Rightarrow> nat \<Rightarrow> jsnum list \<times> jsnum list \<times> jsnum list" where
  "hw_fit data alpha beta gamma seasonLength =
     (let n = length data;
          se0 = hw_seasonal_init data seasonLength;
          lv0 = set_at (new_Array n) 0 (jdiv (elem data 0) (elem se0 0));
          tr0 = set_at (new_Array n) 0 (Num 0)
      in foldl (hw_step data alpha beta gamma seasonLength) (lv0, tr0, se0) [1..<n])"

definition calculateExponentialSmoothing ::
  "jsnum list \<Rightarrow> jsnum \<Rightarrow> jsnum \<Rightarrow> jsnum \<Rightarrow> nat \<Rightarrow> ForecastModel" where
  "calculateExponentialSmoothing data alpha beta gamma seasonLength =
     (let n = length data in
      if n < seasonLength * 2 then simpleExponentialSmoothing data alpha
      else
        case hw_fit data alpha beta gamma seasonLength of (lv, tr, se) \<Rightarrow>
        case foldl (hw_forecast_step n seasonLength lv tr se) ([], []) [1..<8]
        of (predictions', confidence') \<Rightarrow>
          let metrics' = calculateMetrics
                           (slice_last (int (min (length predictions') (length data))) data)
                           (take (length data) predictions')
          in \<lparr>name = ''Holt-Winters'', mtype = exponential_smoothing,
               predictions = predictions', confidence = confidence', metrics = metrics',
               hyperparameters = [(''alpha'', alpha), (''beta'', beta), (''gamma'', gamma),
                                  (''seasonLength'', Num (real seasonLength))]\<rparr>)"

text \<open>\<^verbatim>\<open>activate(inputs, weights, bias)\<close>: the linear unit.\<close>

definition activate :: "jsnum list \<Rightarrow> jsnum list \<Rightarrow> jsnum \<Rightarrow> jsnum" where
  "activate inputs weights bias =
     foldl (\<lambda>acc i. jadd acc (jmul (inputs ! i) (elem weights i))) bias [0..<length inputs]"

text \<open>One training example of one epoch: the weights after the update.\<close>

definition train_step :: "jsnum \<Rightarrow> jsnum \<Rightarrow> jsnum list \<Rightarrow> jsnum list \<times> jsnum \<Rightarrow> jsnum list" where
  "train_step learningRate bias weights ex =
     (case ex of (sequence, target) \<Rightarrow>
        let prediction = activate sequence weights bias;
            error = jsub target prediction
        in map (\<lambda>j. jadd (weights ! j) (jmul (jmul learningRate error) (elem sequence j)))
               [0..<length weights])"

definition calculateNeuralNetworkForecast ::
  "rng \<Rightarrow> jsnum list \<Rightarrow> nat \<Rightarrow> ForecastModel \<times> rng" where
  "calculateNeuralNetworkForecast rnd data windowSize =
     (if length data < windowSize + 1 then (simpleExponentialSmoothing data (Num (3 / 10)), rnd)
      else
        let sequences = map (\<lambda>i. take windowSize (drop i data)) [0..<length data - windowSize];
            targets = map (\<lambda>i. data ! (i + windowSize)) [0..<length data - windowSize]
        in case draws windowSize rnd of (ws, rnd') \<Rightarrow>
           case draw rnd' of (b, rnd'') \<Rightarrow>
             let weights0 = map (\<lambda>r. Num (r - 5 / 10)) ws;
                 bias = Num (b - 5 / 10);
                 learningRate = Num (1 / 100);
                 epochs = (100 :: nat);
                 weights = foldl (\<lambda>w epoch. foldl (train_step learningRate bias) w
                                                     (zip sequences targets))
                                 weights0 [0..<epochs];
                 lastSequence = slice_last (int windowSize) data;
                 prediction = activate lastSequence weights bias;
                 predictions' = [Math_max (Num 0) prediction];
                 confidence' = [Num (8 / 10)];
                 metrics' = calculateMetrics (slice_last 1 targets) predictions'
             in (\<lparr>name = ''Neural Network'', mtype = neural_network,
                  predictions = predictions', confidence = confidence', metrics = metrics',
                  hyperparameters = [(''windowSize'', Num (real windowSize)),
                                     (''learningRate'', learningRate),
                                     (''epochs'', Num (real epochs))]\<rparr>,
                 rnd''))"

subsection \<open>Ensemble\<close>

datatype ensemble_method = average | weighted | best_performer

record EnsembleResult =
  ens_predictions :: "jsnum list"
  ens_confidence :: "jsnum list"

text \<open>
  The body of the \<^verbatim>\<open>forEach\<close> of the weighted policy; the state is
  (ensemblePred, ensembleConf, totalWeight).
\<close>

definition weighted_step ::
  "nat \<Rightarrow> jsnum \<times> jsnum \<times> jsnum \<Rightarrow> ForecastModel \<Rightarrow> jsnum \<times> jsnum \<times> jsnum" where
  "weighted_step i st model =
     (case st of (ensemblePred, ensembleConf, totalWeight) \<Rightarrow>
        if i < length (predictions model)
        then let weight = jor (accuracy (metrics model)) (Num (5 / 10))
             in (jadd ensemblePred (jmul (predictions model ! i) weight),
                 jadd ensembleConf (jmul (elem (confidence model) i) weight),
                 jadd totalWeight weight)
        else st)"

text \<open>The value of (ensemblePred, ensembleConf) after the \<^verbatim>\<open>switch\<close>, at step \<open>i\<close>.\<close>

definition ensemble_at :: "ForecastModel list \<Rightarrow> ensemble_method \<Rightarrow> nat \<Rightarrow> jsnum \<times> jsnum" where
  "ensemble_at models method i =
     (case method of
        average \<Rightarrow>
          let validPredictions = filter (\<lambda>m. i < length (predictions m)) models
          in (jdiv (foldl (\<lambda>sum m. jadd sum (predictions m ! i)) (Num 0) validPredictions)
                   (jlen validPredictions),
              jdiv (foldl (\<lambda>sum m. jadd sum (elem (confidence m) i)) (Num 0) validPredictions)
                   (jlen validPredictions))
      | weighted \<Rightarrow>
          (case foldl (weighted_step i) (Num 0, Num 0, Num 0) models
           of (ensemblePred, ensembleConf, totalWeight) \<Rightarrow>
             if jgt totalWeight (Num 0)
             then (jdiv ensemblePred totalWeight, jdiv ensembleConf totalWeight)
             else (ensemblePred, ensembleConf))
      | best_performer \<Rightarrow>
          let bestModel = foldl (\<lambda>best current.
                             if jgt (jor (accuracy (metrics current)) (Num 0))
                                    (jor (accuracy (metrics best)) (Num 0))
                             then current else best) (hd models) (tl models)
          in if i < length (predictions bestModel)
             then (predictions bestModel ! i, elem (confidence bestModel) i)
             else (Num 0, Num 0))"

definition createEnsemble :: "ForecastModel list \<Rightarrow> ensemble_method \<Rightarrow> EnsembleResult" where
  "createEnsemble models method =
     (if length models = 0 then \<lparr>ens_predictions = [], ens_confidence = []\<rparr>
      else
        let maxLength = foldl max 0 (map (\<lambda>m. length (predictions m)) models)
        in \<lparr>ens_predictions =
               map (\<lambda>i. Math_max (Num 0) (fst (ensemble_at models method i))) [0..<maxLength],
             ens_confidence =
               map (\<lambda>i. Math_min (Num 1) (Math_max (Num 0) (snd (ensemble_at models method i))))
                   [0..<maxLength]\<rparr>)"

subsection \<open>Seasonal decomposition\<close>

record Decomposition =
  trend :: "jsnum list"
  seasonal :: "jsnum list"
  residual :: "jsnum list"

text \<open>The centred moving average at position \<open>i\<close>, the window clipped at both ends.\<close>

definition trend_at :: "jsnum list \<Rightarrow> nat \<Rightarrow> nat \<Rightarrow> jsnum" where
  "trend_at data halfSeason i =
     (let n = length data;
          start = i - halfSeason;
          end = min n (i + halfSeason + 1);
          slice = take (end - start) (drop start data)
      in jdiv (jsum slice) (jlen slice))"

text \<open>
  \<^verbatim>\<open>seasonalAvg\<close>, a dictionary from the season index \<^verbatim>\<open>i % seasonLength\<close> (NaN when
  \<open>seasonLength = 0\<close>) to the list of detrended values pushed so far.
\<close>

definition seasonal_push ::
  "jsnum list \<Rightarrow> jsnum list \<Rightarrow> nat \<Rightarrow> (nat option \<rightharpoonup> jsnum list) \<Rightarrow> nat
     \<Rightarrow> (nat option \<rightharpoonup> jsnum list)" where
  "seasonal_push data tr seasonLength seasonalAvg i =
     (let seasonIndex = imod i seasonLength;
          sofar = (case seasonalAvg seasonIndex of None \<Rightarrow> [] | Some vs \<Rightarrow> vs)
      in seasonalAvg(seasonIndex \<mapsto> sofar @ [jsub (data ! i) (tr ! i)]))"

definition decomposeTimeSeries :: "jsnum list \<Rightarrow> nat \<Rightarrow> Decomposition" where
  "decomposeTimeSeries data seasonLength =
     (let n = length data;
          halfSeason = seasonLength div 2;
          tr = foldl (\<lambda>tr i. set_at tr i (trend_at data halfSeason i)) (new_Array n) [0..<n];
          seasonalAvg = foldl (seasonal_push data tr seasonLength) Map.empty [0..<n];
          seasonalPattern =
            foldl (\<lambda>sp i. set_at sp i
                     (case seasonalAvg (Some i) of
                        Some vs \<Rightarrow> jdiv (jsum vs) (jlen vs)
                      | None \<Rightarrow> Num 0))
                  (new_Array seasonLength) [0..<seasonLength]
      in case foldl (\<lambda>(se, re) i.
                      let se' = set_at se i (elem_opt seasonalPattern (imod i seasonLength));
                          re' = set_at re i (jsub (jsub (data ! i) (tr ! i)) (elem se' i))
                      in (se', re'))
                    (new_Array n, new_Array n) [0..<n]
         of (se, re) \<Rightarrow> \<lparr>trend = tr, seasonal = se, residual = re\<rparr>)"

subsection \<open>The pipeline\<close>

record AdvancedForecastOptions =
  opt_period :: period
  horizon :: jsnum
  ensembleMethod :: "ensemble_method option"

record AdvancedForecastResult =
  r_itemName :: string
  r_category :: string
  models :: "ForecastModel list"
  bestModel :: ForecastModel
  ensemblePrediction :: "jsnum list"
  ensembleConfidence :: "jsnum list"
  forecastHorizon :: jsnum
  externalFactorsImpact :: "(string \<times> jsnum) list"
  seasonalComponents :: Decomposition
  anomalies :: "anomaly list"

text \<open>
  One iteration of the loop over the item groups of \<^verbatim>\<open>generateAdvancedForecasts\<close>; the
  state is the result list and the random generator. The \<^verbatim>\<open>continue\<close> for a short
  series leaves the state as it is.
\<close>

definition advanced_item ::
  "AdvancedForecastOptions \<Rightarrow> AdvancedForecastResult list \<times> rng \<Rightarrow> string \<times> SalesData list
     \<Rightarrow> AdvancedForecastResult list \<times> rng" where
  "advanced_item options st grp =
     (case st of (results, rnd) \<Rightarrow>
      case grp of (key, unsorted) \<Rightarrow>
        let itemSales = sort_by_date unsorted;
            quantities = map quantity itemSales
        in if length quantities < 7 then st
           else
             case calculateARIMA rnd quantities 1 1 1 of (m1, rnd1) \<Rightarrow>
             let m2 = calculateExponentialSmoothing quantities (Num (3 / 10)) (Num (3 / 10))
                        (Num (3 / 10)) 7
             in case calculateNeuralNetworkForecast rnd1 quantities 5 of (m3, rnd2) \<Rightarrow>
             let ms = [m1, m2, m3];
                 best = foldl (\<lambda>best current.
                          if jgt (jor (accuracy (metrics current)) (Num 0))
                                 (jor (accuracy (metrics best)) (Num 0))
                          then current else best) (hd ms) (tl ms);
                 ens = createEnsemble ms
                         (case ensembleMethod options of None \<Rightarrow> weighted | Some m \<Rightarrow> m);
                 comps = decomposeTimeSeries quantities 7;
                 anoms = detectAnomalies itemSales (Num (25 / 10))
             in case draws 4 rnd2 of (rs, rnd3) \<Rightarrow>
               (results @
                  [\<lparr>r_itemName = key, r_category = category (itemSales ! 0), models = ms,
                    bestModel = best, ensemblePrediction = ens_predictions ens,
                    ensembleConfidence = ens_confidence ens,
                    forecastHorizon = horizon options,
                    externalFactorsImpact =
                      [(''weather'', Num (rs ! 0 * (1 / 10))),
                       (''holidays'', Num (rs ! 1 * (2 / 10))),
                       (''seasonality'', Num (rs ! 2 * (15 / 100))),
                       (''trend'', Num (rs ! 3 * (1 / 10)))],
                    seasonalComponents = comps, anomalies = take 5 anoms\<rparr>],
                rnd3))"

definition generateAdvancedForecasts ::
  "rng \<Rightarrow> SalesData list \<Rightarrow> AdvancedForecastOptions \<Rightarrow> AdvancedForecastResult list \<times> rng" where
  "generateAdvancedForecasts rnd salesData options =
     foldl (advanced_item options) ([], rnd) (group_by_item salesData)"

section \<open>Double precision\<close>

text \<open>
  The definitions above compute finite values exactly. Where a property depends on how
  the results are rounded, the function is given a second time on IEEE binary64 numbers.
  A finite double is the real it denotes (the operands are taken to be doubles), and the
  result of an operation is the exact result rounded to the nearest double, a tie going to
  the even significand: 53 significant bits for a normal result, a multiple of \<open>2^-1074\<close>
  for a subnormal one, and an infinity when the rounded magnitude reaches \<open>2^1024\<close>. The
  exceptional operands follow the rules already given. There is still a single zero.
\<close>

text \<open>The nearest integer, a tie going to the even one.\<close>

definition round_half_even :: "real \<Rightarrow> int" where
  "round_half_even x =
     (let f = \<lfloor>x\<rfloor>; d = x - of_int f
      in if d < 1 / 2 then f else if 1 / 2 < d then f + 1 else if even f then f else f + 1)"

text \<open>
  The binary exponent of a positive real as a double has it: the \<open>e\<close> with
  \<open>2^e \<le> x < 2^(e + 1)\<close>, searched upwards from 0 for \<open>x \<ge> 1\<close> and downwards otherwise,
  and kept within the exponent range -1022 .. 1023 of a double.
\<close>

fun exponent_up :: "nat \<Rightarrow> real \<Rightarrow> int \<Rightarrow> int" where
  "exponent_up 0 x e = e"
| "exponent_up (Suc k) x e = (if x < 2 powi (e + 1) then e else exponent_up k x (e + 1))"

fun exponent_down :: "nat \<Rightarrow> real \<Rightarrow> int \<Rightarrow> int" where
  "exponent_down 0 x e = e"
| "exponent_down (Suc k) x e = (if 2 powi e \<le> x then e else exponent_down k x (e - 1))"

definition exponent :: "real \<Rightarrow> int" where
  "exponent x = (if 1 \<le> x then exponent_up 1023 x 0 else exponent_down 1022 x 0)"

text \<open>The distance between neighbouring doubles at a positive magnitude.\<close>

definition quantum :: "real \<Rightarrow> real" where
  "quantum a = 2 powi (exponent a - 52)"

text \<open>A positive magnitude rounded to a multiple of its quantum.\<close>

definition round_mag :: "real \<Rightarrow> real" where
  "round_mag a = of_int (round_half_even (a / quantum a)) * quantum a"

text \<open>Rounding a real to a double.\<close>

definition fl64 :: "real \<Rightarrow> jsnum" where
  "fl64 x =
     (if x = 0 then Num 0
      else if 2 powi 1024 \<le> round_mag \<bar>x\<bar> then (if 0 < x then PInf else NInf)
      else Num (sgn x * round_mag \<bar>x\<bar>))"

fun dadd :: "jsnum \<Rightarrow> jsnum \<Rightarrow> jsnum" where
  "dadd (Num a) (Num b) = fl64 (a + b)"
| "dadd x y = jadd x y"

fun dsub :: "jsnum \<Rightarrow> jsnum \<Rightarrow> jsnum" where
  "dsub (Num a) (Num b) = fl64 (a - b)"
| "dsub x y = jsub x y"

fun dmul :: "jsnum \<Rightarrow> jsnum \<Rightarrow> jsnum" where
  "dmul (Num a) (Num b) = fl64 (a * b)"
| "dmul x y = jmul x y"

fun ddiv :: "jsnum \<Rightarrow> jsnum \<Rightarrow> jsnum" where
  "ddiv (Num a) (Num b) = (if b = 0 then jdiv (Num a) (Num b) else fl64 (a / b))"
| "ddiv x y = jdiv x y"

fun dsqrt :: "jsnum \<Rightarrow> jsnum" where
  "dsqrt (Num a) = (if a < 0 then NaN else fl64 (sqrt a))"
| "dsqrt x = Math_sqrt x"

text \<open>\<^verbatim>\<open>Math.pow(x, 2)\<close> on doubles: the rounded square.\<close>

definition dpow2 :: "jsnum \<Rightarrow> jsnum" where
  "dpow2 x = dmul x x"

text \<open>\<^verbatim>\<open>xs.reduce((sum, val) => sum + val, 0)\<close> on doubles.\<close>

definition dsum :: "jsnum list \<Rightarrow> jsnum" where
  "dsum xs = foldl (\<lambda>sum val. dadd sum val) (Num 0) xs"

subsection \<open>Anomaly detection in double precision\<close>

fun insert_anomaly_d :: "anomaly \<Rightarrow> anomaly list \<Rightarrow> anomaly list" where
  "insert_anomaly_d a [] = [a]"
| "insert_anomaly_d a (b # bs) =
     (if jgt (dsub (anomalyScore b) (anomalyScore a)) (Num 0)
      then b # insert_anomaly_d a bs else a # b # bs)"

definition sort_anomalies_d :: "anomaly list \<Rightarrow> anomaly list" where
  "sort_anomalies_d as = foldr insert_anomaly_d as []"

definition anomaly_mean_d :: "SalesData list \<Rightarrow> jsnum" where
  "anomaly_mean_d data = (let values = map quantity data in ddiv (dsum values) (jlen values))"

definition anomaly_variance_d :: "SalesData list \<Rightarrow> jsnum" where
  "anomaly_variance_d data =
     (let values = map quantity data; mean = anomaly_mean_d data
      in ddiv (foldl (\<lambda>sum val. dadd sum (dpow2 (dsub val mean))) (Num 0) values)
              (jlen values))"

definition anomaly_stdDev_d :: "SalesData list \<Rightarrow> jsnum" where
  "anomaly_stdDev_d data = dsqrt (anomaly_variance_d data)"

definition zScore_d :: "SalesData list \<Rightarrow> SalesData \<Rightarrow> jsnum" where
  "zScore_d data item =
     Math_abs (ddiv (dsub (quantity item) (anomaly_mean_d data)) (anomaly_stdDev_d data))"

definition detectAnomalies_double :: "SalesData list \<Rightarrow> jsnum \<Rightarrow> anomaly list" where
  "detectAnomalies_double data threshold =
     (let anomalies =
            foldl (\<lambda>anomalies item.
                     if jgt (zScore_d data item) threshold
                     then anomalies @ [\<lparr>date_a = date item, value_a = quantity item,
                                         anomalyScore = zScore_d data item\<rparr>]
                     else anomalies) [] data
      in sort_anomalies_d anomalies)"

subsection \<open>Seasonal decomposition in double precision\<close>

definition trend_at_d :: "jsnum list \<Rightarrow> nat \<Rightarrow> nat \<Rightarrow> jsnum" where
  "trend_at_d data halfSeason i =
     (let n = length data;
          start = i - halfSeason;
          end = min n (i + halfSeason + 1);
          slice = take (end - start) (drop start data)
      in ddiv (dsum slice) (jlen slice))"

definition seasonal_push_d ::
  "jsnum list \<Rightarrow> jsnum list \<Rightarrow> nat \<Rightarrow> (nat option \<rightharpoonup> jsnum list) \<Rightarrow> nat
     \<Rightarrow> (nat option \<rightharpoonup> jsnum list)" where
  "seasonal_push_d data tr seasonLength seasonalAvg i =
     (let seasonIndex = imod i seasonLength;
          sofar = (case seasonalAvg seasonIndex of None \<Rightarrow> [] | Some vs \<Rightarrow> vs)
      in seasonalAvg(seasonIndex \<mapsto> sofar @ [dsub (data ! i) (tr ! i)]))"

definition decomposeTimeSeries_double :: "jsnum list \<Rightarrow> nat \<Rightarrow> Decomposition" where
  "decomposeTimeSeries_double data seasonLength =
     (let n = length data;
          halfSeason = seasonLength div 2;
          tr = foldl (\<lambda>tr i. set_at tr i (trend_at_d data halfSeason i)) (new_Array n) [0..<n];
          seasonalAvg = foldl (seasonal_push_d data tr seasonLength) Map.empty [0..<n];
          seasonalPattern =
            foldl (\<lambda>sp i. set_at sp i
                     (case seasonalAvg (Some i) of
                        Some vs \<Rightarrow> ddiv (dsum vs) (jlen vs)
                      | None \<Rightarrow> Num 0))
                  (new_Array seasonLength) [0..<seasonLength]
      in case foldl (\<lambda>(se, re) i.
                      let se' = set_at se i (elem_opt seasonalPattern (imod i seasonLength));
                          re' = set_at re i (dsub (dsub (data ! i) (tr ! i)) (elem se' i))
                      in (se', re'))
                    (new_Array n, new_Array n) [0..<n]
         of (se, re) \<Rightarrow> \<lparr>trend = tr, seasonal = se, residual = re\<rparr>)"

subsection \<open>The classification scores in double precision\<close>

text \<open>
  The lines of \<^verbatim>\<open>calculateMetrics\<close> that lead to the four scores: the loop as far as it
  accumulates \<^verbatim>\<open>mape\<close>, and the conversion to accuracy, precision, recall and f1Score.
  The literal \<^verbatim>\<open>0.3\<close> is the double nearest to 3/10.
\<close>

record MetricScores =
  accuracy_d :: jsnum
  precision_d :: jsnum
  recall_d :: jsnum
  f1Score_d :: jsnum

definition mape_step_d :: "jsnum list \<Rightarrow> jsnum list \<Rightarrow> jsnum \<Rightarrow> nat \<Rightarrow> jsnum" where
  "mape_step_d actual predicted mape_sum i =
     (let error = Math_abs (dsub (actual ! i) (predicted ! i))
      in if actual ! i \<noteq> Num 0 then dadd mape_sum (Math_abs (ddiv error (actual ! i)))
         else mape_sum)"

definition calculateMetrics_scores_double :: "jsnum list \<Rightarrow> jsnum list \<Rightarrow> MetricScores" where
  "calculateMetrics_scores_double actual predicted =
     (let n = min (length actual) (length predicted) in
      if n = 0
      then \<lparr>accuracy_d = Num (5 / 10), precision_d = Num (5 / 10), recall_d = Num (5 / 10),
             f1Score_d = Num (5 / 10)\<rparr>
      else
        let mape0 = foldl (mape_step_d actual predicted) (Num 0) [0..<n];
            mape1 = ddiv mape0 (Num (real n));
            accuracy' = Math_max (Num 0) (dsub (Num 1) mape1);
            precision' = Math_max (fl64 (3 / 10)) accuracy';
            recall' = Math_max (fl64 (3 / 10)) accuracy';
            f1Score' = ddiv (dmul (Num 2) (dmul precision' recall')) (dadd precision' recall')
        in \<lparr>accuracy_d = accuracy', precision_d = precision', recall_d = recall',
             f1Score_d = f1Score'\<rparr>)"

subsection \<open>Anomaly detection on the spike series\<close>

lemma detect_foldl:
  "foldl (\<lambda>anomalies item. if p item then anomalies @ [mk item] else anomalies) acc data
   = acc @ map mk (filter p data)"
  by (induction data arbitrary: acc) simp_all

lemma set_insert_anomaly: "set (insert_anomaly a bs) = insert a (set bs)"
  by (induction bs) auto

lemma set_sort_anomalies: "set (sort_anomalies as) = set as"
  by (induction as) (simp_all add: sort_anomalies_def set_insert_anomaly)

lemma detectAnomalies_filter:
  "detectAnomalies data threshold =
   sort_anomalies (map (\<lambda>item. \<lparr>date_a = date item, value_a = quantity item,
                                  anomalyScore = zScore data item\<rparr>)
                       (filter (\<lambda>item. jgt (zScore data item) threshold) data))"
  unfolding detectAnomalies_def Let_def
  by (subst detect_foldl) simp

lemma jgt_NaN: "jgt NaN t = False"
  by (cases t) (simp_all add: jgt_def)

lemma sqrt_1296: "sqrt 1296 = 36"
  by (simp add: real_sqrt_unique)

lemma spike_list:
  assumes "map quantity data = [Num 10, Num 10, Num 10, Num 10, Num 100]"
  obtains a b c d e where "data = [a, b, c, d, e]"
    "quantity a = Num 10" "quantity b = Num 10" "quantity c = Num 10" "quantity d = Num 10"
    "quantity e = Num 100"
  using assms by (auto simp: map_eq_Cons_conv)

lemma spike_mean:
  assumes "map quantity data = [Num 10, Num 10, Num 10, Num 10, Num 100]"
  shows "anomaly_mean data = Num 28"
  by (simp add: anomaly_mean_def jsum_def jlen_def assms)

lemma spike_stdDev:
  assumes "map quantity data = [Num 10, Num 10, Num 10, Num 10, Num 100]"
  shows "anomaly_stdDev data = Num 36"
  by (simp add: anomaly_stdDev_def anomaly_variance_def spike_mean [OF assms] assms
      jlen_def jsub_def Math_pow2_def sqrt_1296)

lemma spike_zScore:
  assumes "map quantity data = [Num 10, Num 10, Num 10, Num 10, Num 100]"
  shows "quantity item = Num 10 \<Longrightarrow> zScore data item = Num (1 / 2)"
    and "quantity item = Num 100 \<Longrightarrow> zScore data item = Num 2"
  by (simp_all add: zScore_def spike_mean [OF assms] spike_stdDev [OF assms] jsub_def)

lemma spike_detect:
  assumes "map quantity data = [Num 10, Num 10, Num 10, Num 10, Num 100]" and "1 / 2 \<le> t"
  shows "detectAnomalies data (Num t) =
           (if t < 2
            then [\<lparr>date_a = date (data ! 4), value_a = Num 100, anomalyScore = Num 2\<rparr>]
            else [])"
proof -
  obtain a b c d e where data: "data = [a, b, c, d, e]"
    and q: "quantity a = Num 10" "quantity b = Num 10" "quantity c = Num 10"
      "quantity d = Num 10" "quantity e = Num 100"
    using assms(1) by (rule spike_list)
  have z: "zScore data a = Num (1 / 2)" "zScore data b = Num (1 / 2)"
    "zScore data c = Num (1 / 2)" "zScore data d = Num (1 / 2)" "zScore data e = Num 2"
    using q by (simp_all add: spike_zScore [OF assms(1)])
  have f: "filter (\<lambda>item. jgt (zScore data item) (Num t)) data =
        (if t < 2 then [e] else [])"
    using assms(2) by (subst (2) data) (simp add: z jgt_def)
  have e: "data ! 4 = e" by (simp add: data)
  show ?thesis
    by (simp add: detectAnomalies_filter [of data "Num t"] f sort_anomalies_def z q e)
qed

text \<open>
  C5 (amended). On the series [10,10,10,10,100] the value 100 has anomaly score exactly 2
  and every 10 has score 1/2. With the default threshold 2.5 the detector flags nothing;
  with a threshold of at least 1/2 and below 2 it flags exactly one observation, the
  value 100, with score 2.
\<close>

theorem detectAnomalies_spike:
  assumes "map quantity data = [Num 10, Num 10, Num 10, Num 10, Num 100]"
  shows "detectAnomalies data (Num (5 / 2)) = [] \<and>
         (\<forall>t. 1 / 2 \<le> t \<and> t < 2 \<longrightarrow>
            detectAnomalies data (Num t) =
              [\<lparr>date_a = date (data ! 4), value_a = Num 100, anomalyScore = Num 2\<rparr>])"
  using spike_detect [OF assms] by simp

theorem detectAnomalies_spike_witness:
  "map quantity
     (map (\<lambda>(d, q). \<lparr>itemName = ''X'', category = ''Y'', quantity = Num q,
                       revenue = Num 0, date = d\<rparr>)
        [(1, 10), (2, 10), (3, 10), (4, 10), (5, 100)])
     = [Num 10, Num 10, Num 10, Num 10, Num 100] \<and>
   detectAnomalies
     (map (\<lambda>(d, q). \<lparr>itemName = ''X'', category = ''Y'', quantity = Num q,
                       revenue = Num 0, date = d\<rparr>)
        [(1, 10), (2, 10), (3, 10), (4, 10), (5, 100)]) (Num (5 / 2)) = [] \<and>
   detectAnomalies
     (map (\<lambda>(d, q). \<lparr>itemName = ''X'', category = ''Y'', quantity = Num q,
                       revenue = Num 0, date = d\<rparr>)
        [(1, 10), (2, 10), (3, 10), (4, 10), (5, 100)]) (Num (3 / 2))
     = [\<lparr>date_a = 5, value_a = Num 100, anomalyScore = Num 2\<rparr>]"
  using detectAnomalies_spike
    [of "map (\<lambda>(d, q). \<lparr>itemName = ''X'', category = ''Y'', quantity = Num q,
                       revenue = Num 0, date = d\<rparr>)
        [(1, 10), (2, 10), (3, 10), (4, 10), (5, 100)]"]
  by simp

theorem detectAnomalies_spike_counterexample:
  "detectAnomalies
     (map (\<lambda>(d, q). \<lparr>itemName = ''X'', category = ''Y'', quantity = Num q,
                       revenue = Num 0, date = d\<rparr>)
        [(1, 10), (2, 10), (3, 10), (4, 10), (5, 100)]) (Num (5 / 2)) = []"
  by (subst spike_detect) simp_all

section \<open>Properties of the rounding\<close>

subsection \<open>The binary exponent\<close>

lemma two_powi_le_iff: "((2::real) powi m \<le> 2 powi n) = (m \<le> n)"
proof
  assume "(2::real) powi m \<le> 2 powi n"
  show "m \<le> n"
  proof (rule ccontr)
    assume "\<not> m \<le> n"
    then have "(2::real) powi n < 2 powi m" by (intro power_int_strict_increasing) simp_all
    with \<open>(2::real) powi m \<le> 2 powi n\<close> show False by simp
  qed
next
  assume "m \<le> n"
  then show "(2::real) powi m \<le> 2 powi n" by (intro power_int_increasing) simp_all
qed

lemma two_powi_less_iff: "((2::real) powi m < 2 powi n) = (m < n)"
  using two_powi_le_iff [of n m] by (simp add: not_le [symmetric])

lemma two_powi_Suc: "(2::real) powi (e + 1) = 2 * 2 powi e"
  by (simp add: power_int_add_1)

lemma exponent_up_correct:
  "2 powi e \<le> x \<Longrightarrow>
   e \<le> exponent_up k x e \<and> exponent_up k x e \<le> e + int k \<and>
   2 powi (exponent_up k x e) \<le> x \<and>
   (x < 2 powi (exponent_up k x e + 1) \<or> exponent_up k x e = e + int k)"
proof (induction k arbitrary: e)
  case 0
  then show ?case by simp
next
  case (Suc k)
  show ?case
  proof (cases "x < 2 powi (e + 1)")
    case True
    then show ?thesis using Suc.prems by simp
  next
    case False
    then have "2 powi (e + 1) \<le> x" by simp
    from Suc.IH [OF this] False show ?thesis by (auto simp: algebra_simps)
  qed
qed

lemma exponent_down_correct:
  "x < 2 powi (e + 1) \<Longrightarrow>
   e - int k \<le> exponent_down k x e \<and> exponent_down k x e \<le> e \<and>
   x < 2 powi (exponent_down k x e + 1) \<and>
   (2 powi (exponent_down k x e) \<le> x \<or> exponent_down k x e = e - int k)"
proof (induction k arbitrary: e)
  case 0
  then show ?case by simp
next
  case (Suc k)
  show ?case
  proof (cases "2 powi e \<le> x")
    case True
    then show ?thesis using Suc.prems by simp
  next
    case False
    then have "x < 2 powi (e - 1 + 1)" by simp
    from Suc.IH [OF this] False show ?thesis by (auto simp: algebra_simps)
  qed
qed

lemma exponent_range: "- 1022 \<le> exponent x \<and> exponent x \<le> 1023"
proof (cases "1 \<le> x")
  case True
  then have "2 powi 0 \<le> x" by simp
  from exponent_up_correct [OF this, of 1023] True show ?thesis by (simp add: exponent_def)
next
  case False
  then have "x < 2 powi (0 + 1)" by simp
  from exponent_down_correct [OF this, of 1022] False show ?thesis by (simp add: exponent_def)
qed

lemma exponent_normal:
  assumes "2 powi (- 1022) \<le> x" and "x < 2 powi 1024"
  shows "2 powi (exponent x) \<le> x \<and> x < 2 powi (exponent x + 1)"
proof (cases "1 \<le> x")
  case True
  then have "2 powi 0 \<le> x" by simp
  from exponent_up_correct [OF this, of 1023] True assms(2) show ?thesis
    by (auto simp: exponent_def)
next
  case False
  then have "x < 2 powi (0 + 1)" by simp
  from exponent_down_correct [OF this, of 1022] False assms(1) show ?thesis
    by (auto simp: exponent_def)
qed

lemma exponent_eqI:
  assumes "2 powi e \<le> x" and "x < 2 powi (e + 1)" and "- 1022 \<le> e" and "e \<le> 1023"
  shows "exponent x = e"
proof -
  have lo: "2 powi (- 1022) \<le> x"
    using assms(1,3) two_powi_le_iff [of "- 1022" e] by linarith
  have hi: "x < 2 powi 1024"
    using assms(2,4) two_powi_le_iff [of "e + 1" 1024] by linarith
  from exponent_normal [OF lo hi]
  have "2 powi (exponent x) \<le> x" and "x < 2 powi (exponent x + 1)" by simp_all
  then have "(2::real) powi (exponent x) < 2 powi (e + 1)" and "(2::real) powi e < 2 powi (exponent x + 1)"
    using assms(1,2) by linarith+
  then show ?thesis by (simp add: two_powi_less_iff)
qed

lemma exponent_subnormal:
  assumes "x < 2 powi (- 1022)"
  shows "exponent x = - 1022"
proof -
  have "(2::real) powi (- 1022) \<le> 2 powi 0" by (simp only: two_powi_le_iff)
  then have x1: "x < 1" using assms by simp
  then have "x < 2 powi (0 + 1)" by simp
  from exponent_down_correct [OF this, of 1022]
  have r: "- 1022 \<le> exponent x" and d: "2 powi (exponent x) \<le> x \<or> exponent x = - 1022"
    using x1 by (simp_all add: exponent_def)
  show ?thesis
  proof (rule ccontr)
    assume n: "exponent x \<noteq> - 1022"
    then have "2 powi (exponent x) \<le> x" using d by simp
    then have "(2::real) powi (exponent x) < 2 powi (- 1022)" using assms by linarith
    then have "exponent x < - 1022" by (simp only: two_powi_less_iff)
    then show False using r by linarith
  qed
qed

lemma exponent_huge:
  assumes "2 powi 1024 \<le> x"
  shows "exponent x = 1023"
proof -
  have "(2::real) powi 0 \<le> 2 powi 1024" by (simp only: two_powi_le_iff)
  then have x1: "1 \<le> x" using assms by simp
  then have "2 powi 0 \<le> x" by simp
  from exponent_up_correct [OF this, of 1023]
  have r: "exponent x \<le> 1023" and d: "x < 2 powi (exponent x + 1) \<or> exponent x = 1023"
    using x1 by (simp_all add: exponent_def)
  show ?thesis
  proof (rule ccontr)
    assume n: "exponent x \<noteq> 1023"
    then have "x < 2 powi (exponent x + 1)" using d by simp
    then have "(2::real) powi 1024 < 2 powi (exponent x + 1)" using assms by linarith
    then have "1024 < exponent x + 1" by (simp only: two_powi_less_iff)
    then show False using r by linarith
  qed
qed

subsection \<open>Rounding\<close>

lemma round_half_even_err: "\<bar>of_int (round_half_even y) - y\<bar> \<le> 1 / 2"
proof -
  have "of_int \<lfloor>y\<rfloor> \<le> y" "y < of_int \<lfloor>y\<rfloor> + 1" by linarith+
  then show ?thesis by (auto simp: round_half_even_def Let_def)
qed

lemma round_half_even_int: "round_half_even (of_int m) = m"
  by (simp add: round_half_even_def)

lemma round_half_even_ge: "of_int N \<le> y \<Longrightarrow> N \<le> round_half_even y"
proof -
  assume "of_int N \<le> y"
  then have "N \<le> \<lfloor>y\<rfloor>" by (simp add: le_floor_iff)
  then show ?thesis by (auto simp: round_half_even_def Let_def)
qed

lemma round_half_even_le: "y \<le> of_int N \<Longrightarrow> round_half_even y \<le> N"
proof -
  assume a: "y \<le> of_int N"
  then have f: "\<lfloor>y\<rfloor> \<le> N" by (simp add: floor_le_iff) 
  show ?thesis
  proof (cases "y - of_int \<lfloor>y\<rfloor> < 1 / 2")
    case True
    then show ?thesis using f by (simp add: round_half_even_def Let_def)
  next
    case False
    then have "of_int \<lfloor>y\<rfloor> < y" by linarith
    then have "of_int \<lfloor>y\<rfloor> < (of_int N :: real)" using a by linarith
    then have "\<lfloor>y\<rfloor> + 1 \<le> N" by simp
    then show ?thesis using f by (auto simp: round_half_even_def Let_def)
  qed
qed

lemma quantum_pos: "0 < quantum a"
  by (simp add: quantum_def)

lemma quantum_upper: "quantum a \<le> 2 powi 971"
proof -
  have "exponent a - 52 \<le> 971" using exponent_range [of a] by linarith
  then show ?thesis unfolding quantum_def by (simp only: two_powi_le_iff)
qed

lemma quantum_normal:
  assumes "2 powi (- 1022) \<le> a" and "a < 2 powi 1024"
  shows "quantum a \<le> a * 2 powi (- 52)"
proof -
  have "2 powi (exponent a) \<le> a" using exponent_normal [OF assms] by simp
  moreover have "quantum a = 2 powi (exponent a) * 2 powi (- 52)"
    unfolding quantum_def using power_int_add [of "2::real" "exponent a" "- 52"] by simp
  moreover have "(0::real) \<le> 2 powi (- 52)" by (rule zero_le_power_int) simp
  ultimately show ?thesis by (simp only: mult_right_mono)
qed

lemma quantum_subnormal: "a < 2 powi (- 1022) \<Longrightarrow> quantum a = 2 powi (- 1074)"
  by (simp only: quantum_def exponent_subnormal) simp

lemma round_mag_err: "\<bar>round_mag a - a\<bar> \<le> quantum a / 2"
proof -
  let ?q = "quantum a"
  have q: "0 < ?q" by (rule quantum_pos)
  have "\<bar>of_int (round_half_even (a / ?q)) - a / ?q\<bar> \<le> 1 / 2"
    by (rule round_half_even_err)
  then have "\<bar>of_int (round_half_even (a / ?q)) - a / ?q\<bar> * ?q \<le> 1 / 2 * ?q"
    using q by (intro mult_right_mono) simp_all
  moreover have "\<bar>of_int (round_half_even (a / ?q)) - a / ?q\<bar> * ?q = \<bar>round_mag a - a\<bar>"
  proof -
    have "\<bar>of_int (round_half_even (a / ?q)) - a / ?q\<bar> * ?q
          = \<bar>(of_int (round_half_even (a / ?q)) - a / ?q) * ?q\<bar>"
      using q by (simp add: abs_mult)
    also have "(of_int (round_half_even (a / ?q)) - a / ?q) * ?q = round_mag a - a"
      using q by (simp add: round_mag_def algebra_simps)
    finally show ?thesis .
  qed
  ultimately show ?thesis by simp
qed

lemma round_mag_nonneg: "0 \<le> a \<Longrightarrow> 0 \<le> round_mag a"
proof -
  assume "0 \<le> a"
  then have "of_int 0 \<le> a / quantum a" using quantum_pos [of a] by simp
  then have "0 \<le> round_half_even (a / quantum a)" by (rule round_half_even_ge)
  then show ?thesis unfolding round_mag_def using quantum_pos [of a] by simp
qed

lemma round_mag_below_overflow:
  assumes "a \<le> 2 powi 1023"
  shows "round_mag a < 2 powi 1024"
proof -
  have "round_mag a - a \<le> quantum a / 2" using round_mag_err [of a] by linarith
  moreover have "quantum a \<le> 2 powi 971" by (rule quantum_upper)
  moreover have "(2::real) powi 971 < 2 powi 1023" by (simp only: two_powi_less_iff) 
  moreover have "(2::real) powi 1024 = 2 * 2 powi 1023"
    using two_powi_Suc [of 1023] by simp
  moreover have "(0::real) < 2 powi 971" by simp
  ultimately show ?thesis using assms by linarith
qed

lemma quantum_le:
  assumes "0 < a" and "a < 2 powi 1024"
  shows "quantum a \<le> a * 2 powi (- 52) + 2 powi (- 1074)"
proof (cases "2 powi (- 1022) \<le> a")
  case True
  have "(0::real) < 2 powi (- 1074)" by simp
  then show ?thesis using quantum_normal [OF True assms(2)] by linarith
next
  case False
  then have "quantum a = 2 powi (- 1074)" by (intro quantum_subnormal) simp
  moreover have "0 \<le> a * 2 powi (- 52)" using assms(1) by simp
  ultimately show ?thesis by linarith
qed

lemma half_powi: "(2::real) powi (e - 1) = 2 powi e / 2"
  using power_int_diff [of "2::real" e 1] by simp

text \<open>
  The standard model of a rounded operation: the result is finite below the overflow
  threshold, with a relative error of at most \<open>2^-53\<close> and, for a subnormal result, an
  absolute error of at most \<open>2^-1075\<close>.
\<close>

lemma fl64_error:
  assumes "\<bar>x\<bar> \<le> 2 powi 1023"
  obtains y where "fl64 x = Num y" and "\<bar>y - x\<bar> \<le> \<bar>x\<bar> * 2 powi (- 53) + 2 powi (- 1075)"
proof (cases "x = 0")
  case True
  have "(0::real) \<le> 2 powi (- 1075)" by simp
  then show ?thesis using that [of 0] True by (simp add: fl64_def)
next
  case False
  let ?a = "\<bar>x\<bar>"
  have a: "0 < ?a" using False by simp
  have no: "round_mag ?a < 2 powi 1024" using assms by (rule round_mag_below_overflow)
  then have fl: "fl64 x = Num (sgn x * round_mag ?a)" using False by (simp add: fl64_def)
  have lt: "?a < 2 powi 1024"
  proof -
    have "(2::real) powi 1023 < 2 powi 1024" by (simp only: two_powi_less_iff) 
    then show ?thesis using assms by linarith
  qed
  have "\<bar>sgn x * round_mag ?a - x\<bar> = \<bar>round_mag ?a - ?a\<bar>"
    by (cases "0 < x") (simp_all add: False sgn_real_def abs_if)
  also have "\<dots> \<le> quantum ?a / 2" by (rule round_mag_err)
  also have "\<dots> \<le> (?a * 2 powi (- 52) + 2 powi (- 1074)) / 2"
    using quantum_le [OF a lt] by simp
  also have "\<dots> = ?a * 2 powi (- 53) + 2 powi (- 1075)"
    using half_powi [of "- 52"] half_powi [of "- 1074"] by (simp add: add_divide_distrib)
  finally show ?thesis using that [OF fl] by simp
qed

lemma fl64_normal:
  assumes "2 powi (- 1022) \<le> x" and "x \<le> 2 powi 1023"
  obtains y where "fl64 x = Num y" and "x * (1 - 2 powi (- 53)) \<le> y"
    and "y \<le> x * (1 + 2 powi (- 53))"
proof -
  have pos: "0 < x"
  proof -
    have "(0::real) < 2 powi (- 1022)" by simp
    then show ?thesis using assms(1) by linarith
  qed
  have no: "round_mag x < 2 powi 1024" using assms(2) by (rule round_mag_below_overflow)
  then have fl: "fl64 x = Num (round_mag x)" using pos by (simp add: fl64_def)
  have lt: "x < 2 powi 1024"
  proof -
    have "(2::real) powi 1023 < 2 powi 1024" by (simp only: two_powi_less_iff) 
    then show ?thesis using assms(2) by linarith
  qed
  have "\<bar>round_mag x - x\<bar> \<le> quantum x / 2" by (rule round_mag_err)
  also have "\<dots> \<le> (x * 2 powi (- 52)) / 2"
    using quantum_normal [OF assms(1) lt] by simp
  also have "\<dots> = x * 2 powi (- 53)"
    using half_powi [of "- 52"] by simp
  finally have "\<bar>round_mag x - x\<bar> \<le> x * 2 powi (- 53)" .
  then have "x - x * 2 powi (- 53) \<le> round_mag x" "round_mag x \<le> x + x * 2 powi (- 53)"
    by linarith+
  then have "x * (1 - 2 powi (- 53)) \<le> round_mag x" "round_mag x \<le> x * (1 + 2 powi (- 53))"
    by (simp_all only: right_diff_distrib distrib_left mult_1_right)
  then show ?thesis using that [OF fl] by blast
qed

lemma exponent_upper:
  assumes "0 < a" and "a < 2 powi 1024"
  shows "a < 2 powi (exponent a + 1)"
proof (cases "2 powi (- 1022) \<le> a")
  case True
  then show ?thesis using exponent_normal [OF True assms(2)] by simp
next
  case False
  then have e: "exponent a = - 1022" by (intro exponent_subnormal) simp
  have "(2::real) powi (- 1022) < 2 powi (- 1022 + 1)" by (simp only: two_powi_less_iff)
  then show ?thesis using False unfolding e by linarith
qed

lemma round_mag_le_next_power:
  assumes "0 < a" and "a < 2 powi 1024"
  shows "round_mag a \<le> 2 powi (exponent a + 1)"
proof -
  let ?e = "exponent a"
  have q: "0 < quantum a" by (rule quantum_pos)
  have split: "(2::real) powi (?e + 1) = 2 powi 53 * quantum a"
    unfolding quantum_def using power_int_add [of "2::real" 53 "?e - 52"] by (simp add: add.commute)
  have "a / quantum a < 2 powi 53"
    using exponent_upper [OF assms] q unfolding split by (simp add: pos_divide_less_eq)
  then have "a / quantum a \<le> of_int (2 ^ 53)" by simp
  then have "round_half_even (a / quantum a) \<le> 2 ^ 53" by (rule round_half_even_le)
  then have "(of_int (round_half_even (a / quantum a)) :: real) \<le> 2 powi 53"
    by (metis of_int_le_iff of_int_numeral of_int_power power_int_numeral)
  then have "round_mag a \<le> 2 powi 53 * quantum a"
    unfolding round_mag_def using q by (intro mult_right_mono) simp_all
  then show ?thesis by (simp only: split)
qed

lemma round_mag_le_one:
  assumes "0 < a" and "a \<le> 1"
  shows "round_mag a \<le> 1"
proof -
  have lt: "a < 2 powi 1024"
  proof -
    have "(2::real) powi 0 < 2 powi 1024" by (simp only: two_powi_less_iff)
    then show ?thesis using assms(2) by simp
  qed
  show ?thesis
  proof (cases "a = 1")
    case True
    have e: "exponent 1 = 0" by (rule exponent_eqI) simp_all
    show ?thesis by (simp add: True round_mag_def quantum_def e round_half_even_def)
  next
    case False
    then have a1: "a < 1" using assms(2) by simp
    have "exponent a < 0"
    proof (cases "2 powi (- 1022) \<le> a")
      case True
      then have "2 powi (exponent a) \<le> a" using exponent_normal [OF True lt] by simp
      then have "(2::real) powi (exponent a) < 2 powi 0" using a1 by simp
      then show ?thesis by (simp only: two_powi_less_iff)
    next
      case False
      then have "exponent a = - 1022" by (intro exponent_subnormal) simp
      then show ?thesis by simp
    qed
    then have "exponent a + 1 \<le> 0" by simp
    then have "(2::real) powi (exponent a + 1) \<le> 2 powi 0" by (simp only: two_powi_le_iff)
    then show ?thesis using round_mag_le_next_power [OF assms(1) lt] by simp
  qed
qed

lemma fl64_nonneg: "0 \<le> x \<Longrightarrow> nonneg (fl64 x)"
  using round_mag_nonneg [of "\<bar>x\<bar>"] by (simp add: fl64_def sgn_real_def)

lemma fl64_le_one:
  assumes "x \<le> 1"
  obtains (inf) "fl64 x = NInf" | (num) y where "fl64 x = Num y" and "y \<le> 1"
proof (cases "0 < x")
  case True
  then have r: "round_mag \<bar>x\<bar> \<le> 1" using assms round_mag_le_one [of x] by simp
  have "(2::real) powi 0 < 2 powi 1024" by (simp only: two_powi_less_iff)
  then have "\<not> 2 powi 1024 \<le> round_mag \<bar>x\<bar>" using r by simp
  then have "fl64 x = Num (round_mag \<bar>x\<bar>)" using True by (simp add: fl64_def)
  then show ?thesis using num r by blast
next
  case False
  have r: "0 \<le> round_mag \<bar>x\<bar>" by (rule round_mag_nonneg) simp
  show ?thesis
  proof (cases "fl64 x = NInf")
    case True
    then show ?thesis by (rule inf)
  next
    case n: False
    have "fl64 x = Num (sgn x * round_mag \<bar>x\<bar>)"
      using False n by (simp add: fl64_def split: if_splits)
    moreover have "sgn x * round_mag \<bar>x\<bar> \<le> 1"
    proof -
      have "sgn x \<le> 0" using False by (simp add: sgn_real_def)
      then have "sgn x * round_mag \<bar>x\<bar> \<le> 0" using r by (simp add: mult_nonpos_nonneg)
      then show ?thesis by simp
    qed
    ultimately show ?thesis using num by blast
  qed
qed

text \<open>A natural number below \<open>2^53\<close> is a double.\<close>

lemma fl64_nat:
  assumes "n < 2 ^ 53"
  shows "fl64 (real n) = Num (real n)"
proof (cases "n = 0")
  case True
  then show ?thesis by (simp add: fl64_def)
next
  case False
  let ?x = "real n"
  let ?e = "exponent ?x"
  have x1: "1 \<le> ?x" using False by simp
  have x53: "?x < 2 powi 53" using assms
    by (metis of_nat_less_iff of_nat_numeral of_nat_power power_int_numeral)
  have lo: "2 powi (- 1022) \<le> ?x"
  proof -
    have "(2::real) powi (- 1022) \<le> 2 powi 0" by (simp only: two_powi_le_iff)
    then show ?thesis using x1 by simp
  qed
  have hi: "?x < 2 powi 1024"
  proof -
    have "(2::real) powi 53 < 2 powi 1024" by (simp only: two_powi_less_iff)
    then show ?thesis using x53 by linarith
  qed
  have en: "2 powi ?e \<le> ?x" "?x < 2 powi (?e + 1)" using exponent_normal [OF lo hi] by simp_all
  have "(2::real) powi ?e < 2 powi 53" using en(1) x53 by linarith
  then have e53: "?e < 53" by (simp only: two_powi_less_iff)
  have "(2::real) powi 0 < 2 powi (?e + 1)" using en(2) x1 by simp
  then have e0: "0 \<le> ?e" by (simp only: two_powi_less_iff)
  define k where "k = nat (52 - ?e)"
  have k: "?e - 52 = - int k" using e53 by (simp add: k_def)
  have q: "quantum ?x = 1 / 2 ^ k"
    unfolding quantum_def k by (simp add: power_int_minus inverse_eq_divide)
  have "?x / quantum ?x = of_int (int n * 2 ^ k)" by (simp add: q)
  then have "round_half_even (?x / quantum ?x) = int n * 2 ^ k"
    by (simp only: round_half_even_int)
  then have rm: "round_mag ?x = ?x" by (simp add: round_mag_def q)
  have "\<not> 2 powi 1024 \<le> round_mag \<bar>?x\<bar>" using hi rm by simp
  then show ?thesis using False rm by (simp add: fl64_def)
qed

text \<open>Evaluating a rounding when the exponent is known.\<close>

lemma fl64_at:
  assumes "2 powi e \<le> x" and "x < 2 powi (e + 1)" and "- 1022 \<le> e" and "e \<le> 1022"
  shows "fl64 x = Num (of_int (round_half_even (x / 2 powi (e - 52))) * 2 powi (e - 52))"
proof -
  have pos: "0 < x"
  proof -
    have "(0::real) < 2 powi e" by simp
    then show ?thesis using assms(1) by linarith
  qed
  have e: "exponent x = e" using assms by (intro exponent_eqI) simp_all
  have "e + 1 \<le> 1023" using assms(4) by simp
  then have "(2::real) powi (e + 1) \<le> 2 powi 1023" by (simp only: two_powi_le_iff)
  then have "x \<le> 2 powi 1023" using assms(2) by linarith
  then have "round_mag x < 2 powi 1024" by (rule round_mag_below_overflow)
  then show ?thesis using pos by (simp add: fl64_def round_mag_def quantum_def e)
qed

lemma round_half_even_small: "0 \<le> y \<Longrightarrow> y < 1 / 2 \<Longrightarrow> round_half_even y = 0"
proof -
  assume a: "0 \<le> y" "y < 1 / 2"
  then have "\<lfloor>y\<rfloor> = 0" by (simp add: floor_eq_iff)
  then show ?thesis using a by (simp add: round_half_even_def Let_def)
qed

lemma fl64_underflow:
  assumes "0 < x" and "x < 2 powi (- 1075)"
  shows "fl64 x = Num 0"
proof -
  have lt: "(2::real) powi (- 1075) < 2 powi (- 1022)" by (simp only: two_powi_less_iff)
  then have sub: "x < 2 powi (- 1022)" using assms(2) by linarith
  have q: "quantum x = 2 powi (- 1074)" using sub by (rule quantum_subnormal)
  have "(2::real) powi (- 1075) = 2 powi (- 1074) / 2" using half_powi [of "- 1074"] by simp
  then have "x < 2 powi (- 1074) / 2" using assms(2) by simp
  moreover have p: "(0::real) < 2 powi (- 1074)" by (rule zero_less_power_int) simp
  ultimately have "x / 2 powi (- 1074) < 1 / 2"
    by (simp only: pos_divide_less_eq [OF p] times_divide_eq_left mult_1)
  moreover have "0 \<le> x / 2 powi (- 1074)" using assms(1) p by (intro divide_nonneg_pos) linarith+
  ultimately have "round_half_even (x / 2 powi (- 1074)) = 0"
    by (rule round_half_even_small [rotated])
  then have "round_mag x = 0" by (simp only: round_mag_def q of_int_0 mult_zero_left)
  then show ?thesis using assms(1) by (simp add: fl64_def)
qed

lemma fl64_zero: "fl64 0 = Num 0"
  by (simp add: fl64_def)

lemma fl64_minus: "fl64 (- x) = jneg (fl64 x)"
  by (simp add: fl64_def)

text \<open>A number with a significand below \<open>2^53\<close> and an exponent in range is a double.\<close>

lemma round_mag_representable:
  assumes m: "0 < m" "m < 2 ^ 53" and j: "- 1074 \<le> j" "j \<le> 970"
  shows "round_mag (of_int m * 2 powi j) = of_int m * 2 powi j"
    and "(of_int m * 2 powi j :: real) < 2 powi 1024"
proof -
  let ?a = "of_int m * 2 powi j :: real"
  let ?e = "exponent ?a"
  have pj: "(0::real) < 2 powi j" by simp
  have a0: "0 < ?a" using m(1) by simp
  have "(of_int m :: real) < 2 ^ 53" using m(2) by (metis of_int_less_iff of_int_numeral of_int_power)
  then have m53: "(of_int m :: real) < 2 powi 53" by simp
  then have "?a < 2 powi 53 * 2 powi j" using pj by (simp only: mult_less_cancel_right_pos)
  moreover have "(2::real) powi (53 + j) = 2 powi 53 * 2 powi j"
    by (rule power_int_add) simp
  ultimately have up: "?a < 2 powi (53 + j)" by (simp only:)
  have "53 + j \<le> 1024" using j(2) by simp
  then have "(2::real) powi (53 + j) \<le> 2 powi 1024" by (simp only: two_powi_le_iff)
  then show hi: "?a < 2 powi 1024" using up by linarith
  have le: "?e - 52 \<le> j"
  proof (cases "2 powi (- 1022) \<le> ?a")
    case True
    have "2 powi ?e \<le> ?a" using exponent_normal [OF True hi] by simp
    then have "(2::real) powi ?e < 2 powi (53 + j)" using up by linarith
    then have "?e < 53 + j" by (simp only: two_powi_less_iff)
    then show ?thesis by simp
  next
    case False
    then have "?e = - 1022" by (intro exponent_subnormal) simp
    then show ?thesis using j(1) by simp
  qed
  define k where "k = nat (j - (?e - 52))"
  have k: "j = (?e - 52) + int k" using le by (simp add: k_def)
  have "(2::real) powi (?e - 52 + int k) = 2 powi (?e - 52) * 2 powi (int k)"
    by (rule power_int_add) simp
  then have "(2::real) powi j = 2 powi (?e - 52) * 2 powi (int k)"
    using k by simp
  moreover define q where "q = quantum ?a"
  ultimately have split: "(2::real) powi j = q * 2 ^ k"
    by (simp add: quantum_def)
  have q: "0 < q" unfolding q_def by (rule quantum_pos)
  have "of_int m * (q * 2 ^ k) / q = of_int (m * 2 ^ k)"
    using q by simp
  then have "round_half_even (of_int m * (q * 2 ^ k) / q) = m * 2 ^ k"
    by (simp only: round_half_even_int)
  then have "of_int (round_half_even (of_int m * (q * 2 ^ k) / q)) * q = of_int m * (q * 2 ^ k)"
    by simp
  then have "of_int (round_half_even (?a / q)) * q = ?a"
    by (simp only: split)
  then show "round_mag ?a = ?a"
    by (simp only: round_mag_def q_def)
qed

lemma fl64_representable:
  assumes m: "\<bar>m\<bar> < 2 ^ 53" and j: "- 1074 \<le> j" "j \<le> 970"
  shows "fl64 (of_int m * 2 powi j) = Num (of_int m * 2 powi j)"
proof -
  have pos: "fl64 (of_int n * 2 powi j) = Num (of_int n * 2 powi j)"
    if n: "0 < n" "n < 2 ^ 53" for n :: int
  proof -
    let ?a = "of_int n * 2 powi j :: real"
    have a0: "0 < ?a" using n(1) by simp
    have "round_mag ?a = ?a" "?a < 2 powi 1024"
      using round_mag_representable [OF n j] by simp_all
    moreover have "\<bar>?a\<bar> = ?a" using a0 by simp
    ultimately show ?thesis using a0 by (simp add: fl64_def)
  qed
  consider "m = 0" | "0 < m" | "m < 0" by linarith
  then show ?thesis
  proof cases
    case 1
    then show ?thesis by (simp add: fl64_def)
  next
    case 2
    then show ?thesis using pos [of m] m by simp
  next
    case 3
    then have "fl64 (of_int (- m) * 2 powi j) = Num (of_int (- m) * 2 powi j)"
      using m by (intro pos) simp_all
    then have "fl64 (- (of_int m * 2 powi j)) = Num (- (of_int m * 2 powi j))" by simp
    then have "jneg (fl64 (of_int m * 2 powi j)) = Num (- (of_int m * 2 powi j))"
      by (simp only: fl64_minus)
    then show ?thesis by (cases "fl64 (of_int m * 2 powi j)") simp_all
  qed
qed

lemma representable_upper:
  assumes "m < 2 ^ 53"
  shows "(of_int m * 2 powi j :: real) < 2 powi (53 + j)"
proof -
  have "(of_int m :: real) < 2 ^ 53" using assms by (metis of_int_less_iff of_int_numeral of_int_power)
  then have "(of_int m :: real) < 2 powi 53" by simp
  moreover have "(0::real) < 2 powi j" by simp
  ultimately have "(of_int m * 2 powi j :: real) < 2 powi 53 * 2 powi j"
    by (simp only: mult_less_cancel_right_pos)
  moreover have "(2::real) powi (53 + j) = 2 powi 53 * 2 powi j"
    by (rule power_int_add) simp
  ultimately show ?thesis by (simp only:)
qed

text \<open>Rounding does not cross a double: a bound that is a double bounds the rounded value.\<close>

lemma round_mag_bounded:
  assumes a: "0 < a" "a \<le> of_int m * 2 powi j"
    and m: "0 < m" "m < 2 ^ 53" and j: "- 1074 \<le> j" "j \<le> 970"
  shows "round_mag a \<le> of_int m * 2 powi j"
proof -
  let ?R = "of_int m * 2 powi j :: real"
  let ?e = "exponent a"
  have up: "?R < 2 powi (53 + j)" using m(2) by (rule representable_upper)
  have hiR: "?R < 2 powi 1024" using round_mag_representable(2) [OF m j] .
  have hi: "a < 2 powi 1024" using a(2) hiR by linarith
  have le: "?e - 52 \<le> j"
  proof (cases "2 powi (- 1022) \<le> a")
    case True
    have "2 powi ?e \<le> a" using exponent_normal [OF True hi] by simp
    then have "(2::real) powi ?e < 2 powi (53 + j)" using up a(2) by linarith
    then have "?e < 53 + j" by (simp only: two_powi_less_iff)
    then show ?thesis by simp
  next
    case False
    then have "?e = - 1022" by (intro exponent_subnormal) simp
    then show ?thesis using j(1) by simp
  qed
  define k where "k = nat (j - (?e - 52))"
  have k: "j = (?e - 52) + int k" using le by (simp add: k_def)
  have "(2::real) powi (?e - 52 + int k) = 2 powi (?e - 52) * 2 powi (int k)"
    by (rule power_int_add) simp
  then have "(2::real) powi j = 2 powi (?e - 52) * 2 powi (int k)"
    using k by simp
  moreover define q where "q = quantum a"
  ultimately have split: "(2::real) powi j = q * 2 ^ k"
    by (simp add: quantum_def)
  have q: "0 < q" unfolding q_def by (rule quantum_pos)
  have R: "?R = of_int (m * 2 ^ k) * q" by (simp add: split)
  have "a \<le> of_int (m * 2 ^ k) * q" using a(2) by (simp only: R)
  then have "a / q \<le> of_int (m * 2 ^ k)" using q by (simp add: pos_divide_le_eq)
  then have "round_half_even (a / q) \<le> m * 2 ^ k" by (rule round_half_even_le)
  then have "(of_int (round_half_even (a / q)) :: real) \<le> of_int (m * 2 ^ k)"
    by (simp only: of_int_le_iff)
  then have "of_int (round_half_even (a / q)) * q \<le> of_int (m * 2 ^ k) * q"
    using q by (intro mult_right_mono) simp_all
  then show ?thesis by (simp only: round_mag_def q_def [symmetric] R)
qed

lemma fl64_bounded:
  assumes x: "\<bar>x\<bar> \<le> of_int m * 2 powi j"
    and m: "0 < m" "m < 2 ^ 53" and j: "- 1074 \<le> j" "j \<le> 970"
  shows "bounded_by (of_int m * 2 powi j) (fl64 x)"
proof (cases "x = 0")
  case True
  then show ?thesis using x by (simp add: fl64_def)
next
  case False
  then have a: "0 < \<bar>x\<bar>" by simp
  have r: "round_mag \<bar>x\<bar> \<le> of_int m * 2 powi j" using a x m j by (rule round_mag_bounded)
  have "(of_int m * 2 powi j :: real) < 2 powi 1024" using round_mag_representable(2) [OF m j] .
  then have "\<not> 2 powi 1024 \<le> round_mag \<bar>x\<bar>" using r by linarith
  then have "fl64 x = Num (sgn x * round_mag \<bar>x\<bar>)" using False by (simp add: fl64_def)
  moreover have "\<bar>sgn x * round_mag \<bar>x\<bar>\<bar> = round_mag \<bar>x\<bar>"
    using False round_mag_nonneg [of "\<bar>x\<bar>"] by (simp add: abs_mult)
  ultimately show ?thesis using r by simp
qed

subsection \<open>Anomaly detection in double precision\<close>

lemma set_insert_anomaly_d: "set (insert_anomaly_d a bs) = insert a (set bs)"
  by (induction bs) auto

lemma set_sort_anomalies_d: "set (sort_anomalies_d as) = set as"
  by (induction as) (simp_all add: sort_anomalies_d_def set_insert_anomaly_d)

lemma detectAnomalies_double_filter:
  "detectAnomalies_double data threshold =
   sort_anomalies_d (map (\<lambda>item. \<lparr>date_a = date item, value_a = quantity item,
                                    anomalyScore = zScore_d data item\<rparr>)
                         (filter (\<lambda>item. jgt (zScore_d data item) threshold) data))"
  unfolding detectAnomalies_double_def Let_def
  by (subst detect_foldl) simp

lemma squares_at_mean:
  "\<forall>v \<in> set vs. v = Num m \<Longrightarrow>
   foldl (\<lambda>sum val. dadd sum (dpow2 (dsub val (Num m)))) (Num 0) vs = Num 0"
  by (induction vs) (simp_all add: dpow2_def fl64_zero)

lemma zScore_d_at_mean:
  assumes all: "\<forall>item \<in> set data. quantity item = anomaly_mean_d data"
    and item: "item \<in> set data"
  shows "zScore_d data item = NaN"
proof (cases "anomaly_mean_d data")
  case (Num m)
  have ne: "real (length data) \<noteq> 0" using item by auto
  have "\<forall>v \<in> set (map quantity data). v = Num m" using all Num by simp
  then have "foldl (\<lambda>sum val. dadd sum (dpow2 (dsub val (Num m)))) (Num 0) (map quantity data)
      = Num 0"
    by (rule squares_at_mean)
  then have "anomaly_variance_d data = Num 0"
    using ne by (simp add: anomaly_variance_d_def Num jlen_def fl64_zero)
  then have sd: "anomaly_stdDev_d data = Num 0"
    by (simp add: anomaly_stdDev_d_def fl64_zero)
  have "quantity item = Num m" using all item Num by simp
  then show ?thesis by (simp add: zScore_d_def Num sd fl64_zero)
next
  case PInf
  then have "quantity item = PInf" using all item by simp
  then show ?thesis by (simp add: zScore_d_def PInf jsub_def)
next
  case NInf
  then have "quantity item = NInf" using all item by simp
  then show ?thesis by (simp add: zScore_d_def NInf jsub_def)
next
  case NaN
  then have "quantity item = NaN" using all item by simp
  then show ?thesis by (simp add: zScore_d_def NaN jsub_def)
qed

lemma detectAnomalies_double_at_mean:
  assumes "\<forall>item \<in> set data. quantity item = anomaly_mean_d data"
  shows "detectAnomalies_double data threshold = []"
proof -
  have "filter (\<lambda>item. jgt (zScore_d data item) threshold) data = []"
    using assms by (simp add: filter_empty_conv zScore_d_at_mean jgt_NaN)
  then show ?thesis by (simp add: detectAnomalies_double_filter sort_anomalies_d_def)
qed

lemma dsum_whole:
  "\<forall>v \<in> set vs. v = Num (real q) \<Longrightarrow> (k + length vs) * q < 2 ^ 53 \<Longrightarrow>
   foldl (\<lambda>sum val. dadd sum val) (Num (real (k * q))) vs = Num (real ((k + length vs) * q))"
proof (induction vs arbitrary: k)
  case Nil
  then show ?case by simp
next
  case (Cons v vs)
  have v: "v = Num (real q)" using Cons.prems(1) by simp
  have "Suc k * q \<le> (k + length (v # vs)) * q" by (intro mult_right_mono) simp_all
  then have "Suc k * q < 2 ^ 53" using Cons.prems(2) by linarith
  then have "fl64 (real (Suc k * q)) = Num (real (Suc k * q))" by (rule fl64_nat)
  moreover have "real (k * q) + real q = real (Suc k * q)" by (simp add: algebra_simps)
  ultimately have step: "dadd (Num (real (k * q))) v = Num (real (Suc k * q))"
    by (simp only: v dadd.simps)
  have "foldl (\<lambda>sum val. dadd sum val) (Num (real (Suc k * q))) vs
      = Num (real ((Suc k + length vs) * q))"
    using Cons.prems by (intro Cons.IH) simp_all
  then show ?case by (simp only: foldl.simps step) simp
qed

lemma anomaly_mean_d_whole:
  assumes all: "\<forall>item \<in> set data. quantity item = Num (real q)"
    and small: "length data * q < 2 ^ 53" and ne: "data \<noteq> []"
  shows "anomaly_mean_d data = Num (real q)"
proof -
  let ?n = "length data"
  have "\<forall>v \<in> set (map quantity data). v = Num (real q)" using all by simp
  moreover have "(0 + length (map quantity data)) * q < 2 ^ 53" using small by simp
  ultimately have "foldl (\<lambda>sum val. dadd sum val) (Num (real (0 * q))) (map quantity data)
      = Num (real ((0 + length (map quantity data)) * q))"
    by (rule dsum_whole)
  then have s: "dsum (map quantity data) = Num (real (?n * q))" by (simp add: dsum_def)
  have n: "0 < ?n" using ne by simp
  then have "1 \<le> ?n" by linarith
  then have "1 * q \<le> ?n * q" by (intro mult_right_mono) simp_all
  then have "q \<le> ?n * q" by simp
  then have "q < 2 ^ 53" using small by linarith
  then have "fl64 (real q) = Num (real q)" by (rule fl64_nat)
  moreover have "real (?n * q) / real ?n = real q" using n by simp
  ultimately show ?thesis using n by (simp add: anomaly_mean_d_def s jlen_def)
qed

lemma detectAnomalies_double_whole:
  assumes all: "\<forall>item \<in> set data. quantity item = Num (real q)"
    and small: "length data * q < 2 ^ 53"
  shows "detectAnomalies_double data threshold = []"
proof (cases "data = []")
  case True
  then show ?thesis by (simp add: detectAnomalies_double_def sort_anomalies_d_def)
next
  case False
  have "anomaly_mean_d data = Num (real q)" using all small False by (rule anomaly_mean_d_whole)
  then have "\<forall>item \<in> set data. quantity item = anomaly_mean_d data" using all by simp
  then show ?thesis by (rule detectAnomalies_double_at_mean)
qed

lemma detectAnomalies_double_no_NaN:
  assumes "a \<in> set (detectAnomalies_double data threshold)"
  shows "anomalyScore a \<noteq> NaN"
proof -
  obtain item where "jgt (zScore_d data item) threshold" and "anomalyScore a = zScore_d data item"
    using assms by (auto simp: detectAnomalies_double_filter set_sort_anomalies_d)
  then show ?thesis using jgt_NaN [of threshold] by auto
qed

lemma fl64_numeral:
  assumes "numeral k < (2::nat) ^ 53"
  shows "fl64 (numeral k) = Num (numeral k)"
  using fl64_nat [OF assms] by simp

lemma fl64_half: "fl64 (1 / 2) = Num (1 / 2)"
  by (subst fl64_at [of "- 1"]) (simp_all add: round_half_even_def)

lemma spike_mean_d:
  assumes "map quantity data = [Num 10, Num 10, Num 10, Num 10, Num 100]"
  shows "anomaly_mean_d data = Num 28"
  by (simp add: anomaly_mean_d_def dsum_def jlen_def assms fl64_numeral)

lemma spike_stdDev_d:
  assumes "map quantity data = [Num 10, Num 10, Num 10, Num 10, Num 100]"
  shows "anomaly_stdDev_d data = Num 36"
  by (simp add: anomaly_stdDev_d_def anomaly_variance_d_def spike_mean_d [OF assms] assms
      jlen_def dpow2_def sqrt_1296 fl64_numeral fl64_minus)

lemma spike_zScore_d:
  assumes "map quantity data = [Num 10, Num 10, Num 10, Num 10, Num 100]"
  shows "quantity item = Num 10 \<Longrightarrow> zScore_d data item = Num (1 / 2)"
    and "quantity item = Num 100 \<Longrightarrow> zScore_d data item = Num 2"
  by (simp_all add: zScore_d_def spike_mean_d [OF assms] spike_stdDev_d [OF assms]
      fl64_numeral fl64_minus fl64_half)

lemma spike_detect_d:
  assumes "map quantity data = [Num 10, Num 10, Num 10, Num 10, Num 100]"
  shows "detectAnomalies_double data (Num (3 / 2)) =
           [\<lparr>date_a = date (data ! 4), value_a = Num 100, anomalyScore = Num 2\<rparr>]"
proof -
  obtain a b c d e where data: "data = [a, b, c, d, e]"
    and q: "quantity a = Num 10" "quantity b = Num 10" "quantity c = Num 10"
      "quantity d = Num 10" "quantity e = Num 100"
    using assms by (rule spike_list)
  have z: "zScore_d data a = Num (1 / 2)" "zScore_d data b = Num (1 / 2)"
    "zScore_d data c = Num (1 / 2)" "zScore_d data d = Num (1 / 2)" "zScore_d data e = Num 2"
    using q by (simp_all add: spike_zScore_d [OF assms])
  have f: "filter (\<lambda>item. jgt (zScore_d data item) (Num (3 / 2))) data = [e]"
    by (subst (2) data) (simp add: z jgt_def)
  have e: "data ! 4 = e" by (simp add: data)
  show ?thesis
    by (simp add: detectAnomalies_double_filter [of data "Num (3 / 2)"] f sort_anomalies_d_def
        z q e)
qed

lemma spike_series_d:
  "detectAnomalies_double
     (map (\<lambda>(d, q). \<lparr>itemName = ''X'', category = ''Y'', quantity = Num q,
                       revenue = Num 0, date = d\<rparr>)
        [(1, 10), (2, 10), (3, 10), (4, 10), (5, 100)]) (Num (3 / 2))
   = [\<lparr>date_a = 5, value_a = Num 100, anomalyScore = Num 2\<rparr>]"
  by (subst spike_detect_d) simp_all

text \<open>
  C4 (amended). In double precision, a series whose quantities all equal the mean that
  the detector computes yields no anomaly; this is the case whenever all quantities are
  one whole number q and the series has n observations with n * q below \<open>2^53\<close>. For every
  series and every threshold, no anomaly score in the output is NaN.
\<close>

theorem detectAnomalies_double_degenerate:
  "((\<forall>item \<in> set data. quantity item = anomaly_mean_d data) \<longrightarrow>
      detectAnomalies_double data threshold = []) \<and>
   ((\<forall>item \<in> set data. quantity item = Num (real q)) \<and> length data * q < 2 ^ 53 \<longrightarrow>
      detectAnomalies_double data threshold = []) \<and>
   (\<forall>a \<in> set (detectAnomalies_double data threshold). anomalyScore a \<noteq> NaN)"
  using detectAnomalies_double_at_mean [of data threshold]
    detectAnomalies_double_whole [of data q threshold]
    detectAnomalies_double_no_NaN [of _ data threshold]
  by blast

theorem detectAnomalies_double_degenerate_witness:
  "length (replicate 7 \<lparr>itemName = ''X'', category = ''Y'', quantity = Num 12,
                         revenue = Num 0, date = 1\<rparr>) * 12 < (2::nat) ^ 53 \<and>
   anomaly_mean_d (replicate 7 \<lparr>itemName = ''X'', category = ''Y'', quantity = Num 12,
                         revenue = Num 0, date = 1\<rparr>) = Num 12 \<and>
   detectAnomalies_double
     (replicate 7 \<lparr>itemName = ''X'', category = ''Y'', quantity = Num 12,
                    revenue = Num 0, date = 1\<rparr>) (Num (5 / 2)) = [] \<and>
   detectAnomalies_double
     (map (\<lambda>(d, q). \<lparr>itemName = ''X'', category = ''Y'', quantity = Num q,
                       revenue = Num 0, date = d\<rparr>)
        [(1, 10), (2, 10), (3, 10), (4, 10), (5, 100)]) (Num (3 / 2))
     = [\<lparr>date_a = 5, value_a = Num 100, anomalyScore = Num 2\<rparr>] \<and>
   anomalyScore \<lparr>date_a = 5, value_a = Num 100, anomalyScore = Num 2\<rparr> \<noteq> NaN"
proof -
  let ?flat = "replicate 7 \<lparr>itemName = ''X'', category = ''Y'', quantity = Num 12,
                         revenue = Num 0, date = 1\<rparr>"
  let ?spike = "map (\<lambda>(d, q). \<lparr>itemName = ''X'', category = ''Y'', quantity = Num q,
                       revenue = Num 0, date = d\<rparr>)
        [(1, 10), (2, 10), (3, 10), (4, 10), (5, 100)]"
  have all: "\<forall>item \<in> set ?flat. quantity item = Num (real 12)" by simp
  have small: "length ?flat * 12 < (2::nat) ^ 53" by simp
  have mean: "anomaly_mean_d ?flat = Num 12"
    using anomaly_mean_d_whole [OF all small] by simp
  have at_mean: "\<forall>item \<in> set ?flat. quantity item = anomaly_mean_d ?flat"
    using mean by simp
  have 1: "detectAnomalies_double ?flat (Num (5 / 2)) = []"
    using detectAnomalies_double_degenerate [of ?flat "Num (5 / 2)" 12] all small at_mean
    by blast
  have "\<forall>a \<in> set (detectAnomalies_double ?spike (Num (3 / 2))). anomalyScore a \<noteq> NaN"
    using detectAnomalies_double_degenerate [of ?spike "Num (3 / 2)" 0] by blast
  then have 3: "anomalyScore \<lparr>date_a = 5, value_a = Num 100, anomalyScore = Num 2\<rparr> \<noteq> NaN"
    unfolding spike_series_d by simp
  show ?thesis using small mean 1 spike_series_d 3 by blast
qed

lemma replicate_7: "replicate 7 x = [x, x, x, x, x, x, x]"
  by (simp add: numeral_eq_Suc)

lemma dsub_same_not_positive: "\<not> jgt (dsub s s) (Num 0)"
  by (cases s) (simp_all add: fl64_zero jgt_def jsub_def)

lemma insert_anomaly_d_same: "insert_anomaly_d a (replicate n a) = a # replicate n a"
  by (cases n) (simp_all add: dsub_same_not_positive)

lemma sort_anomalies_d_same: "sort_anomalies_d (replicate n a) = replicate n a"
  by (induction n) (simp_all add: sort_anomalies_d_def insert_anomaly_d_same)

lemma detectAnomalies_double_same:
  assumes "zScore_d (replicate n r) r = z" and "jgt z t"
  shows "detectAnomalies_double (replicate n r) t =
           replicate n \<lparr>date_a = date r, value_a = quantity r, anomalyScore = z\<rparr>"
  using assms by (simp add: detectAnomalies_double_filter sort_anomalies_d_same)

lemma ddiv_seven: "ddiv (Num a) (Num 7) = fl64 (a / 7)"
  by simp

lemma dsqrt_zero: "dsqrt (Num 0) = Num 0"
  by (simp add: fl64_zero)

lemma tiny_mean:
  assumes "map quantity data = replicate 7 (Num (3602879701896397 / 2 ^ 655))"
  shows "anomaly_mean_d data = Num (7205759403792793 / 2 ^ 656)"
proof -
  have s1: "fl64 (0 + 3602879701896397 / 2 ^ 655) = Num (3602879701896397 / 2 ^ 655)"
    by (subst fl64_at [of "- 604"]) (simp_all add: round_half_even_def)
  have s2: "fl64 (3602879701896397 / 2 ^ 655 + 3602879701896397 / 2 ^ 655)
      = Num (3602879701896397 / 2 ^ 654)"
    by (subst fl64_at [of "- 603"]) (simp_all add: round_half_even_def)
  have s3: "fl64 (3602879701896397 / 2 ^ 654 + 3602879701896397 / 2 ^ 655)
      = Num (1351079888211149 / 2 ^ 652)"
    by (subst fl64_at [of "- 602"]) (simp_all add: round_half_even_def)
  have s4: "fl64 (1351079888211149 / 2 ^ 652 + 3602879701896397 / 2 ^ 655)
      = Num (3602879701896397 / 2 ^ 653)"
    by (subst fl64_at [of "- 602"]) (simp_all add: round_half_even_def)
  have s5: "fl64 (3602879701896397 / 2 ^ 653 + 3602879701896397 / 2 ^ 655)
      = Num (1 / 2 ^ 601)"
    by (subst fl64_at [of "- 601"]) (simp_all add: round_half_even_def)
  have s6: "fl64 (1 / 2 ^ 601 + 3602879701896397 / 2 ^ 655)
      = Num (5404319552844595 / 2 ^ 653)"
    by (subst fl64_at [of "- 601"]) (simp_all add: round_half_even_def)
  have s7: "fl64 (5404319552844595 / 2 ^ 653 + 3602879701896397 / 2 ^ 655)
      = Num (3152519739159347 / 2 ^ 652)"
    by (subst fl64_at [of "- 601"]) (simp_all add: round_half_even_def)
  have m: "fl64 (3152519739159347 / 2 ^ 652 / 7) = Num (7205759403792793 / 2 ^ 656)"
    by (subst fl64_at [of "- 604"]) (simp_all add: round_half_even_def)
  have len: "jlen (replicate 7 (Num (3602879701896397 / 2 ^ 655))) = Num 7"
    by (simp add: jlen_def)
  have "dsum (replicate 7 (Num (3602879701896397 / 2 ^ 655)))
      = Num (3152519739159347 / 2 ^ 652)"
    by (simp only: replicate_7 dsum_def foldl.simps dadd.simps s1 s2 s3 s4 s5 s6 s7)
  then show ?thesis
    by (simp only: anomaly_mean_d_def Let_def assms len ddiv_seven m)
qed

lemma tiny_stdDev:
  assumes "map quantity data = replicate 7 (Num (3602879701896397 / 2 ^ 655))"
  shows "anomaly_stdDev_d data = Num 0"
proof -
  have d: "fl64 (3602879701896397 / 2 ^ 655 - 7205759403792793 / 2 ^ 656) = Num (1 / 2 ^ 656)"
    by (subst fl64_at [of "- 656"]) (simp_all add: round_half_even_def)
  have sq: "fl64 (1 / 2 ^ 656 * (1 / 2 ^ 656)) = Num 0"
    by (rule fl64_underflow) simp_all
  have z: "fl64 (0 + 0) = Num 0" "fl64 (0 / 7) = Num 0"
    by (simp_all add: fl64_zero)
  have len: "jlen (replicate 7 (Num (3602879701896397 / 2 ^ 655))) = Num 7"
    by (simp add: jlen_def)
  have "foldl (\<lambda>sum val. dadd sum (dpow2 (dsub val (Num (7205759403792793 / 2 ^ 656)))))
          (Num 0) (replicate 7 (Num (3602879701896397 / 2 ^ 655))) = Num 0"
    by (simp only: replicate_7 foldl.simps dsub.simps dpow2_def dmul.simps dadd.simps d sq z)
  then show ?thesis
    by (simp only: anomaly_stdDev_d_def anomaly_variance_d_def Let_def tiny_mean [OF assms]
        assms len ddiv_seven z dsqrt_zero)
qed

lemma tiny_zScore:
  assumes "map quantity data = replicate 7 (Num (3602879701896397 / 2 ^ 655))"
    and "quantity item = Num (3602879701896397 / 2 ^ 655)"
  shows "zScore_d data item = PInf"
proof -
  have d: "fl64 (3602879701896397 / 2 ^ 655 - 7205759403792793 / 2 ^ 656) = Num (1 / 2 ^ 656)"
    by (subst fl64_at [of "- 656"]) (simp_all add: round_half_even_def)
  have q: "ddiv (Num (1 / 2 ^ 656)) (Num 0) = PInf"
    by (simp add: inf_of_sign_def)
  show ?thesis
    by (simp only: zScore_d_def tiny_mean [OF assms(1)] tiny_stdDev [OF assms(1)] assms(2)
        dsub.simps d q Math_abs.simps)
qed

text \<open>
  Seven observations of the same quantity \<open>0.1 * 2^-600\<close> (about 2.4e-182), default
  threshold 2.5. The running sum rounds, the mean comes out one unit in the last place
  below the quantity, each deviation is \<open>2^-656\<close> and its square underflows to 0. The
  standard deviation is 0, every z-score is a non-zero deviation divided by 0, and all
  seven observations are reported with score Infinity.
\<close>

theorem detectAnomalies_double_counterexample:
  "map anomalyScore
     (detectAnomalies_double
        (replicate 7 \<lparr>itemName = ''X'', category = ''Y'',
                       quantity = Num (3602879701896397 / 2 ^ 655), revenue = Num 0, date = 1\<rparr>)
        (Num (5 / 2)))
   = [PInf, PInf, PInf, PInf, PInf, PInf, PInf]"
proof -
  let ?r = "\<lparr>itemName = ''X'', category = ''Y'',
             quantity = Num (3602879701896397 / 2 ^ 655), revenue = Num 0, date = 1\<rparr>"
  have "map quantity (replicate 7 ?r) = replicate 7 (Num (3602879701896397 / 2 ^ 655))"
    by simp
  moreover have "quantity ?r = Num (3602879701896397 / 2 ^ 655)" by simp
  ultimately have "zScore_d (replicate 7 ?r) ?r = PInf" by (rule tiny_zScore)
  moreover have "jgt PInf (Num (5 / 2))" by (simp add: jgt_def)
  ultimately have "detectAnomalies_double (replicate 7 ?r) (Num (5 / 2)) =
      replicate 7 \<lparr>date_a = date ?r, value_a = quantity ?r, anomalyScore = PInf\<rparr>"
    by (rule detectAnomalies_double_same)
  then show ?thesis by (simp add: numeral_eq_Suc)
qed

subsection \<open>Moving average\<close>

lemma calculateMovingAverage_client_last:
  assumes "0 < window" and "window \<le> int (length data)"
  shows "\<exists>avgs. calculateMovingAverage_client data window = Inr avgs \<and> avgs \<noteq> [] \<and>
           last avgs = calculateMovingAverage data window"
proof -
  let ?w = "nat window"
  let ?n = "length data"
  let ?f = "\<lambda>i. let slice = take ?w (drop (i + 1 - ?w) data)
                 in jdiv (jsum slice) (Num (real_of_int window))"
  have w: "0 < ?w" "?w \<le> ?n" using assms by auto
  then have upt: "[?w - 1..<?n] = [?w - 1..<?n - 1] @ [?n - 1]"
    by (metis Suc_diff_1 diff_le_mono le_imp_less_Suc less_le_trans upt_Suc_append
        less_Suc_eq_le)
  have cl: "calculateMovingAverage_client data window = Inr (map ?f [?w - 1..<?n])"
    using assms by (simp add: calculateMovingAverage_client_def)
  have "?w - 1 < ?n" using w by linarith
  then have ne: "map ?f [?w - 1..<?n] \<noteq> []" by auto
  have "last (map ?f [?w - 1..<?n]) = ?f (?n - 1)"
    by (subst upt) simp
  also have "\<dots> = jdiv (jsum (drop (?n - ?w) data)) (Num (real_of_int window))"
    using w by (simp add: Let_def)
  also have "\<dots> = calculateMovingAverage data window"
    using assms by (simp add: calculateMovingAverage_def slice_last_def)
  finally show ?thesis using cl ne by blast
qed

text \<open>
  C3 (amended). The service's moving average has no failing path: it returns the mean of
  the whole series whenever the series is shorter than the window, and the mean of the
  last \<open>window\<close> elements when \<open>0 < window \<le> length\<close>. The client's moving average fails
  with the invalid-window error if and only if \<open>window \<le> 0\<close> or \<open>window > length\<close>;
  otherwise it returns the rolling means, the last of which is the mean of the last
  \<open>window\<close> elements.
\<close>

theorem calculateMovingAverage_cases:
  "(int (length data) < window \<longrightarrow>
      calculateMovingAverage data window = jdiv (jsum data) (jlen data)) \<and>
   (0 < window \<and> window \<le> int (length data) \<longrightarrow>
      calculateMovingAverage data window =
        (let recent = drop (length data - nat window) data
         in jdiv (jsum recent) (jlen recent))) \<and>
   ((calculateMovingAverage_client data window = Inl InvalidWindow) =
      (window \<le> 0 \<or> int (length data) < window)) \<and>
   (0 < window \<and> window \<le> int (length data) \<longrightarrow>
      (\<exists>avgs. calculateMovingAverage_client data window = Inr avgs \<and> avgs \<noteq> [] \<and>
         last avgs = calculateMovingAverage data window))"
proof (intro conjI impI)
  assume "int (length data) < window"
  then show "calculateMovingAverage data window = jdiv (jsum data) (jlen data)"
    by (simp add: calculateMovingAverage_def)
next
  assume a: "0 < window \<and> window \<le> int (length data)"
  then have le: "nat window \<le> length data" and w: "real (nat window) = real_of_int window"
    by linarith+
  have "real (length data - nat window) = real (length data) - real_of_int window"
    using of_nat_diff [OF le, where 'a = real] w by simp
  then show "calculateMovingAverage data window =
        (let recent = drop (length data - nat window) data
         in jdiv (jsum recent) (jlen recent))"
    using a by (simp add: calculateMovingAverage_def slice_last_def jlen_def Let_def)
next
  show "(calculateMovingAverage_client data window = Inl InvalidWindow) =
      (window \<le> 0 \<or> int (length data) < window)"
    by (auto simp: calculateMovingAverage_client_def)
next
  assume "0 < window \<and> window \<le> int (length data)"
  then show "\<exists>avgs. calculateMovingAverage_client data window = Inr avgs \<and> avgs \<noteq> [] \<and>
         last avgs = calculateMovingAverage data window"
    using calculateMovingAverage_client_last by blast
qed

theorem calculateMovingAverage_cases_witness:
  "calculateMovingAverage [Num 1, Num 2, Num 6] 5 = Num 3 \<and>
   calculateMovingAverage [Num 1, Num 2, Num 6] 2 = Num 4 \<and>
   calculateMovingAverage_client [Num 1, Num 2, Num 6] 5 = Inl InvalidWindow \<and>
   calculateMovingAverage_client [Num 1, Num 2, Num 6] 0 = Inl InvalidWindow \<and>
   calculateMovingAverage_client [Num 1, Num 2, Num 6] 2 = Inr [Num (3 / 2), Num 4]"
proof -
  have 1: "calculateMovingAverage [Num 1, Num 2, Num 6] 5 = Num 3"
    using calculateMovingAverage_cases [of "[Num 1, Num 2, Num 6]" 5]
    by (simp add: jsum_def jlen_def)
  have 2: "calculateMovingAverage [Num 1, Num 2, Num 6] 2 = Num 4"
    using calculateMovingAverage_cases [of "[Num 1, Num 2, Num 6]" 2]
    by (simp add: jsum_def jlen_def)
  have 3: "calculateMovingAverage_client [Num 1, Num 2, Num 6] 5 = Inl InvalidWindow"
    using calculateMovingAverage_cases [of "[Num 1, Num 2, Num 6]" 5] by simp
  have 4: "calculateMovingAverage_client [Num 1, Num 2, Num 6] 0 = Inl InvalidWindow"
    using calculateMovingAverage_cases [of "[Num 1, Num 2, Num 6]" 0] by simp
  have 5: "calculateMovingAverage_client [Num 1, Num 2, Num 6] 2 = Inr [Num (3 / 2), Num 4]"
    by (simp add: calculateMovingAverage_client_def jsum_def upt_rec [of "Suc 0"])
  show ?thesis using 1 2 3 4 5 by blast
qed

theorem calculateMovingAverage_counterexample:
  "calculateMovingAverage [Num 1, Num 2] 0 = PInf \<and>
   calculateMovingAverage_client [Num 1, Num 2] 3 = Inl InvalidWindow"
  by (simp add: calculateMovingAverage_def calculateMovingAverage_client_def slice_last_def
      jsum_def inf_of_sign_def)

subsection \<open>Confidence\<close>

text \<open>
  C2. On a series of zeros the service's confidence is NaN: the coefficient of variation
  is 0/0, \<^verbatim>\<open>Math.max\<close> and \<^verbatim>\<open>Math.min\<close> return NaN for a NaN argument. The client's
  version, which takes the coefficient to be 1 when the mean is 0, returns 0.3 there.
\<close>

theorem calculateConfidence_zero_series:
  "calculateConfidence [Num 0, Num 0, Num 0] (Num 0) = NaN \<and>
   calculateConfidence_client [Num 0, Num 0, Num 0] (Num 0) = Num (3 / 10)"
  by (simp add: calculateConfidence_def calculateConfidence_client_def jsum_def jlen_def
      jsub_def Math_pow2_def Math_max_def Math_min_def jor_def falsy_def)

subsection \<open>Basic forecaster on a flat series\<close>

lemma foldl_add_sale_same:
  "\<forall>s \<in> set ys. itemName s = k \<Longrightarrow> foldl add_sale [(k, xs)] ys = [(k, xs @ ys)]"
  by (induction ys arbitrary: xs) (simp_all add: add_sale_def)

lemma group_by_item_single:
  assumes "\<forall>s \<in> set salesData. itemName s = k" and "salesData \<noteq> []"
  shows "group_by_item salesData = [(k, salesData)]"
proof -
  obtain s ss where sd: "salesData = s # ss" using assms(2) by (cases salesData) auto
  have "group_by_item salesData = foldl add_sale [(k, [s])] ss"
    using assms(1) by (simp add: group_by_item_def sd add_sale_def)
  also have "\<dots> = [(k, [s] @ ss)]"
    using assms(1) by (intro foldl_add_sale_same) (simp add: sd)
  finally show ?thesis by (simp add: sd)
qed

lemma map_const_replicate: "\<forall>x \<in> set xs. f x = c \<Longrightarrow> map f xs = replicate (length xs) c"
  by (induction xs) simp_all

lemma flat_quantities:
  assumes "\<forall>s \<in> set salesData. quantity s = Num q"
  shows "map quantity (sort_by_date salesData) = replicate (length salesData) (Num q)"
proof -
  have "\<forall>s \<in> set (sort_by_date salesData). quantity s = Num q"
    using assms by (simp add: sort_by_date_def)
  then have "map quantity (sort_by_date salesData)
               = replicate (length (sort_by_date salesData)) (Num q)"
    by (rule map_const_replicate)
  then show ?thesis by (simp add: sort_by_date_def)
qed

lemma flat_category:
  assumes "\<forall>s \<in> set salesData. category s = c" and "salesData \<noteq> []"
  shows "category (sort_by_date salesData ! 0) = c"
proof -
  have "sort_by_date salesData ! 0 \<in> set (sort_by_date salesData)"
    using assms(2) by (intro nth_mem) (simp add: sort_by_date_def)
  then show ?thesis using assms(1) by (simp add: sort_by_date_def)
qed

lemma ten: "replicate 10 q = [q, q, q, q, q, q, q, q, q, q]"
  by (simp add: numeral_eq_Suc)

lemma upt_ten: "[0..<10] = [0, 1, 2, 3, 4, 5, 6, 7, 8, 9]"
  by (simp add: upt_rec)

lemma flat_movingAverage:
  "calculateMovingAverage (replicate 10 (Num 50)) 7 = Num 50"
  by (simp add: ten calculateMovingAverage_def slice_last_def jsum_def)

lemma flat_linearTrend:
  "calculateLinearTrend (replicate 10 (Num 50)) = Num 50"
  by (simp add: ten calculateLinearTrend_def Let_def upt_ten sum_xy_def jsum_def jlen_def
      elem_def jsub_def)

lemma flat_confidence:
  "calculateConfidence (replicate 10 (Num 50)) (Num p) =
     Math_min (Num (98 / 100)) (Math_max (Num (3 / 10)) (Num (exp (- (\<bar>p - 50\<bar> / 2)))))"
  by (simp add: ten calculateConfidence_def Let_def jsum_def jlen_def jsub_def Math_pow2_def
      Math_max_def jor_def falsy_def)


lemma exp_far: assumes "5 \<le> (d::real)" shows "exp (- (d / 2)) < 3 / 10"
proof -
  have "1 + d / 2 \<le> exp (d / 2)" by (rule exp_ge_add_one_self)
  then have "7 / 2 \<le> exp (d / 2)" using assms by linarith
  then have "inverse (exp (d / 2)) \<le> inverse (7 / 2)"
    by (intro le_imp_inverse_le) simp_all
  then show ?thesis by (simp add: exp_minus)
qed

lemma flat_confidence_far:
  assumes "5 \<le> \<bar>p - 50\<bar>"
  shows "calculateConfidence (replicate 10 (Num 50)) (Num p) = Num (3 / 10)"
  using exp_far [OF assms] unfolding flat_confidence
  by (simp add: Math_min_def Math_max_def)

lemma flat_confidence_exact:
  "calculateConfidence (replicate 10 (Num 50)) (Num 50) = Num (98 / 100)"
  unfolding flat_confidence by (simp add: Math_min_def Math_max_def)

lemma flat_forecast_item:
  assumes "length salesData = 10"
    and "\<forall>s \<in> set salesData. category s = c \<and> quantity s = Num 50"
    and "dayOfWeek < 7"
  shows "fst (forecast_item per tomorrow dayOfWeek ([], Num 0, 0) (k, salesData)) =
           [\<lparr>p_itemName = k, p_category = c,
             predictedQuantity = Math_round (jmul (Num 50) (getSeasonalMultiplier dayOfWeek)),
             p_confidence = (if dayOfWeek = 2 then Num (98 / 100) else Num (3 / 10)),
             predictionDate = tomorrow, forecastPeriod = per\<rparr>]"
proof -
  have ne: "salesData \<noteq> []" using assms(1) by auto
  have q: "map quantity (sort_by_date salesData) = replicate 10 (Num 50)"
    using flat_quantities [of salesData 50] assms(1,2) by simp
  have cat: "category (sort_by_date salesData ! 0) = c"
    using flat_category [OF _ ne, of c] assms(2) by simp
  have base: "jadd (jmul (Num 50) (Num (6 / 10))) (jmul (Num 50) (Num (4 / 10))) = Num 50"
    by simp
  have len: "length (replicate 10 (Num 50)) = 10" by simp
  have fi: "fst (forecast_item per tomorrow dayOfWeek ([], Num 0, 0) (k, salesData)) =
      [\<lparr>p_itemName = k, p_category = c,
        predictedQuantity =
          Math_max (Num 0) (Math_round (jmul (Num 50) (getSeasonalMultiplier dayOfWeek))),
        p_confidence = calculateConfidence (replicate 10 (Num 50))
          (Math_round (jmul (Num 50) (getSeasonalMultiplier dayOfWeek))),
        predictionDate = tomorrow, forecastPeriod = per\<rparr>]"
    unfolding forecast_item_def Let_def q cat len prod.case
    by (simp add: flat_movingAverage flat_linearTrend)
  consider "dayOfWeek = 0" | "dayOfWeek = 1" | "dayOfWeek = 2" | "dayOfWeek = 3"
    | "dayOfWeek = 4" | "dayOfWeek = 5" | "dayOfWeek = 6"
    using assms(3) by linarith
  then show ?thesis
  proof cases
    case 1
    have "getSeasonalMultiplier dayOfWeek = Num (8 / 10)"
      by (simp add: 1 getSeasonalMultiplier_def seasonalFactors_def elem_def)
    then show ?thesis unfolding fi using 1
      by (simp add: flat_confidence_far Math_max_def)
  next
    case 2
    have "getSeasonalMultiplier dayOfWeek = Num (9 / 10)"
      by (simp add: 2 getSeasonalMultiplier_def seasonalFactors_def elem_def)
    then show ?thesis unfolding fi using 2
      by (simp add: flat_confidence_far Math_max_def)
  next
    case 3
    have "getSeasonalMultiplier dayOfWeek = Num 1"
      by (simp add: 3 getSeasonalMultiplier_def seasonalFactors_def elem_def)
    then show ?thesis unfolding fi using 3
      by (simp add: flat_confidence_exact Math_max_def)
  next
    case 4
    have "getSeasonalMultiplier dayOfWeek = Num (11 / 10)"
      by (simp add: 4 getSeasonalMultiplier_def seasonalFactors_def elem_def)
    then show ?thesis unfolding fi using 4
      by (simp add: flat_confidence_far Math_max_def)
  next
    case 5
    have "getSeasonalMultiplier dayOfWeek = Num (12 / 10)"
      by (simp add: 5 getSeasonalMultiplier_def seasonalFactors_def elem_def)
    then show ?thesis unfolding fi using 5
      by (simp add: flat_confidence_far Math_max_def)
  next
    case 6
    have "getSeasonalMultiplier dayOfWeek = Num (14 / 10)"
      by (simp add: 6 getSeasonalMultiplier_def seasonalFactors_def elem_def)
    then show ?thesis unfolding fi using 6
      by (simp add: flat_confidence_far Math_max_def)
  next
    case 7
    have "getSeasonalMultiplier dayOfWeek = Num (13 / 10)"
      by (simp add: 7 getSeasonalMultiplier_def seasonalFactors_def elem_def)
    then show ?thesis unfolding fi using 7
      by (simp add: flat_confidence_far Math_max_def)
  qed
qed

lemma generateForecasts_predictions:
  "predictions_b (generateForecasts salesData per tomorrow dayOfWeek) =
     fst (foldl (forecast_item per tomorrow dayOfWeek) ([], Num 0, 0) (group_by_item salesData))"
  by (simp add: generateForecasts_def Let_def split: prod.splits)

lemma flat_forecast:
  assumes "length salesData = 10"
    and "\<forall>s \<in> set salesData. itemName s = k \<and> category s = c \<and> quantity s = Num 50"
    and "dayOfWeek < 7"
  shows "predictions_b (generateForecasts salesData per tomorrow dayOfWeek) =
           [\<lparr>p_itemName = k, p_category = c,
             predictedQuantity = Math_round (jmul (Num 50) (getSeasonalMultiplier dayOfWeek)),
             p_confidence = (if dayOfWeek = 2 then Num (98 / 100) else Num (3 / 10)),
             predictionDate = tomorrow, forecastPeriod = per\<rparr>]"
proof -
  have ne: "salesData \<noteq> []" using assms(1) by auto
  have g: "group_by_item salesData = [(k, salesData)]"
    using assms(2) by (intro group_by_item_single ne) simp
  show ?thesis
    unfolding generateForecasts_predictions g
    using flat_forecast_item [OF assms(1) _ assms(3), of c per tomorrow k] assms(2) by simp
qed

text \<open>
  C8 (amended). Given ten observations of one item, all of quantity 50, the basic
  forecaster emits one prediction whose quantity is round(50 * factor), the factor taken
  from the table [0.8, 0.9, 1.0, 1.1, 1.2, 1.4, 1.3] at tomorrow's weekday. Its confidence
  is 0.98 when that weekday is Tuesday (factor 1.0, the prediction equals the mean) and 0.3
  on every other weekday, where the prediction is at least 5 away from the mean and the
  deviation penalty exp(-|prediction - mean| / 2) is below the floor.
\<close>

theorem generateForecasts_flat:
  assumes "length salesData = 10"
    and "\<forall>s \<in> set salesData. itemName s = k \<and> category s = c \<and> quantity s = Num 50"
    and "dayOfWeek < 7"
  shows "predictions_b (generateForecasts salesData per tomorrow dayOfWeek) =
           [\<lparr>p_itemName = k, p_category = c,
             predictedQuantity = Math_round (jmul (Num 50) (elem seasonalFactors dayOfWeek)),
             p_confidence = (if dayOfWeek = 2 then Num (98 / 100) else Num (3 / 10)),
             predictionDate = tomorrow, forecastPeriod = per\<rparr>]"
  using flat_forecast [OF assms] by (simp add: getSeasonalMultiplier_def)

theorem generateForecasts_flat_witness:
  "predictions_b (generateForecasts
     (map (\<lambda>d. \<lparr>itemName = ''X'', category = ''Y'', quantity = Num 50,
                  revenue = Num 100, date = d\<rparr>) [1, 2, 3, 4, 5, 6, 7, 8, 9, 10])
     daily 11 2) =
     [\<lparr>p_itemName = ''X'', p_category = ''Y'', predictedQuantity = Num 50,
       p_confidence = Num (98 / 100), predictionDate = 11, forecastPeriod = daily\<rparr>] \<and>
   predictions_b (generateForecasts
     (map (\<lambda>d. \<lparr>itemName = ''X'', category = ''Y'', quantity = Num 50,
                  revenue = Num 100, date = d\<rparr>) [1, 2, 3, 4, 5, 6, 7, 8, 9, 10])
     daily 11 5) =
     [\<lparr>p_itemName = ''X'', p_category = ''Y'', predictedQuantity = Num 70,
       p_confidence = Num (3 / 10), predictionDate = 11, forecastPeriod = daily\<rparr>]"
  using generateForecasts_flat
    [of "map (\<lambda>d. \<lparr>itemName = ''X'', category = ''Y'', quantity = Num 50,
                  revenue = Num 100, date = d\<rparr>) [1, 2, 3, 4, 5, 6, 7, 8, 9, 10]"
        "''X''" "''Y''" 2 daily 11]
    generateForecasts_flat
    [of "map (\<lambda>d. \<lparr>itemName = ''X'', category = ''Y'', quantity = Num 50,
                  revenue = Num 100, date = d\<rparr>) [1, 2, 3, 4, 5, 6, 7, 8, 9, 10]"
        "''X''" "''Y''" 5 daily 11]
  by (simp add: seasonalFactors_def elem_def)

theorem generateForecasts_flat_counterexample:
  "map p_confidence (predictions_b (generateForecasts
     (map (\<lambda>d. \<lparr>itemName = ''X'', category = ''Y'', quantity = Num 50,
                  revenue = Num 100, date = d\<rparr>) [1, 2, 3, 4, 5, 6, 7, 8, 9, 10])
     daily 11 0)) = [Num (3 / 10)] \<and> jlt (Num (3 / 10)) (Num (9 / 10))"
  by (subst flat_forecast [of _ "''X''" "''Y''"]) simp_all

subsection \<open>Ensemble weights\<close>

text \<open>
  C1. With the weighted policy a model whose accuracy is 0 is not given weight 0: the
  default \<^verbatim>\<open>accuracy || 0.5\<close> applies to every falsy accuracy, so 0 becomes 0.5. Combining
  a model of accuracy 0 (prediction 10, confidence 0.5) with a model of accuracy 1
  (prediction 20, confidence 0.9) yields prediction 50/3 and confidence 23/30, not the
  second model's 20 and 0.9.
\<close>

theorem createEnsemble_weighted_zero_accuracy:
  "createEnsemble
     [\<lparr>name = ''A'', mtype = arima, predictions = [Num 10], confidence = [Num (5 / 10)],
       metrics = \<lparr>mae = Num 0, mape = Num 1, rmse = Num 0, r2 = Num 0, aic = Num 0,
                  accuracy = Num 0, precision = Num (3 / 10), recall = Num (3 / 10),
                  f1Score = Num (3 / 10)\<rparr>,
       hyperparameters = []\<rparr>,
      \<lparr>name = ''B'', mtype = neural_network, predictions = [Num 20], confidence = [Num (9 / 10)],
       metrics = \<lparr>mae = Num 0, mape = Num 0, rmse = Num 0, r2 = Num 1, aic = Num 0,
                  accuracy = Num 1, precision = Num 1, recall = Num 1, f1Score = Num 1\<rparr>,
       hyperparameters = []\<rparr>]
     weighted
   = \<lparr>ens_predictions = [Num (50 / 3)], ens_confidence = [Num (23 / 30)]\<rparr>"
  by (simp add: createEnsemble_def ensemble_at_def weighted_step_def jor_def falsy_def
      elem_def jgt_def Math_max_def Math_min_def)

subsection \<open>The classification scores in double precision\<close>

lemma nonneg_abs: "nonneg (Math_abs x)"
  by (cases x) simp_all

lemma nonneg_dadd: "nonneg x \<Longrightarrow> nonneg y \<Longrightarrow> nonneg (dadd x y)"
  by (cases x; cases y) (simp_all add: fl64_nonneg)

lemma nonneg_ddiv_pos: "nonneg m \<Longrightarrow> 0 < n \<Longrightarrow> nonneg (ddiv m (Num n))"
  by (cases m) (simp_all add: fl64_nonneg)

lemma mape_fold_nonneg:
  "nonneg acc \<Longrightarrow> nonneg (foldl (mape_step_d actual predicted) acc is)"
proof (induction "is" arbitrary: acc)
  case Nil
  then show ?case by simp
next
  case (Cons i "is")
  have "nonneg (mape_step_d actual predicted acc i)"
    using Cons.prems by (simp add: mape_step_d_def Let_def nonneg_dadd nonneg_abs)
  then show ?case using Cons.IH by simp
qed

text \<open>The accuracy is NaN or a number between 0 and 1.\<close>

lemma accuracy_class:
  assumes "nonneg m"
  shows "Math_max (Num 0) (dsub (Num 1) m) = NaN \<or>
         in_range 0 1 (Math_max (Num 0) (dsub (Num 1) m))"
proof (cases m)
  case (Num r)
  have "1 - r \<le> 1" using assms Num by simp
  then show ?thesis
  proof (cases rule: fl64_le_one)
    case inf
    then show ?thesis by (simp add: Num Math_max_def)
  next
    case (num y)
    then show ?thesis by (simp add: Num Math_max_def)
  qed
next
  case PInf
  then show ?thesis by (simp add: jsub_def Math_max_def)
next
  case NInf
  then show ?thesis using assms by simp
next
  case NaN
  then show ?thesis by (simp add: jsub_def Math_max_def)
qed

lemma fl64_three_tenths: "fl64 (3 / 10) = Num (5404319552844595 / 18014398509481984)"
  by (subst fl64_at [of "- 2"]) (simp_all add: round_half_even_def)

lemma precision_class:
  assumes "a = NaN \<or> in_range 0 1 a"
  shows "Math_max (fl64 (3 / 10)) a = NaN \<or> in_range (1 / 4) 1 (Math_max (fl64 (3 / 10)) a)"
  using assms by (cases a) (auto simp: fl64_three_tenths Math_max_def)

lemma tiny_le: "(2::real) powi (- 1022) \<le> 1 / 128"
proof -
  have "(2::real) powi (- 1022) \<le> 2 powi (- 7)" by (simp only: two_powi_le_iff)
  then show ?thesis by simp
qed

lemma huge_ge: "(32::real) \<le> 2 powi 1023"
proof -
  have "(2::real) powi 5 \<le> 2 powi 1023" by (simp only: two_powi_le_iff)
  then show ?thesis by simp
qed

text \<open>
  The error of \<^verbatim>\<open>2 * (p * p) / (p + p)\<close> in double precision, from the error of each of
  its four operations, for \<open>1/4 \<le> p \<le> 1\<close>.
\<close>

lemma f1_double_close:
  assumes "1 / 4 \<le> p" and "p \<le> 1"
  obtains f where "ddiv (dmul (Num 2) (dmul (Num p) (Num p))) (dadd (Num p) (Num p)) = Num f"
    and "\<bar>f - p\<bar> \<le> 2 powi (- 50) * p"
proof -
  define u :: real where "u = 2 powi (- 53)"
  have u0: "0 < u" by (simp add: u_def)
  have u1: "u \<le> 1 / 1024"
  proof -
    have "(2::real) powi (- 53) \<le> 2 powi (- 10)" by (simp only: two_powi_le_iff)
    then show ?thesis by (simp add: u_def)
  qed
  have p0: "0 < p" using assms(1) by simp
  have pp: "1 / 16 \<le> p * p" "p * p \<le> 1"
    using mult_mono [of "1 / 4" p "1 / 4" p] mult_mono [of p 1 p 1] assms by simp_all
  \<comment> \<open>the product\<close>
  have "2 powi (- 1022) \<le> p * p" "p * p \<le> 2 powi 1023"
    using pp tiny_le huge_ge by linarith+
  then obtain A where A: "fl64 (p * p) = Num A"
    and Al: "p * p * (1 - u) \<le> A" and Au: "A \<le> p * p * (1 + u)"
    unfolding u_def by (rule fl64_normal)
  have ppu: "0 \<le> p * p * u" "p * p * u \<le> 1 / 1024"
    using mult_mono [of "p * p" 1 u "1 / 1024"] pp u0 u1 by simp_all
  have A1: "1 / 32 \<le> A" "A \<le> 2"
    using Al Au pp ppu by (simp_all add: algebra_simps)
  \<comment> \<open>twice the product\<close>
  have "2 powi (- 1022) \<le> 2 * A" "2 * A \<le> 2 powi 1023"
    using A1 tiny_le huge_ge by linarith+
  then obtain B where B: "fl64 (2 * A) = Num B"
    and Bl: "2 * A * (1 - u) \<le> B" and Bu: "B \<le> 2 * A * (1 + u)"
    unfolding u_def by (rule fl64_normal)
  have Au': "0 \<le> A * u" "A * u \<le> 1 / 512"
    using mult_mono [of A 2 u "1 / 1024"] A1 u0 u1 by simp_all
  have B1: "1 / 32 \<le> B" "B \<le> 5"
    using Bl Bu A1 Au' by (simp_all add: algebra_simps)
  \<comment> \<open>the sum\<close>
  have "2 powi (- 1022) \<le> p + p" "p + p \<le> 2 powi 1023"
    using assms tiny_le huge_ge by linarith+
  then obtain C where C: "fl64 (p + p) = Num C"
    and Cl: "(p + p) * (1 - u) \<le> C" and Cu: "C \<le> (p + p) * (1 + u)"
    unfolding u_def by (rule fl64_normal)
  have pu: "0 \<le> p * u" "p * u \<le> 1 / 1024"
    using mult_mono [of p 1 u "1 / 1024"] assms p0 u0 u1 by simp_all
  have Cr: "1 / 4 \<le> C" "C \<le> 3"
    using Cl Cu assms pu by (simp_all add: algebra_simps)
  have Cp: "0 < C" using Cr by simp
  \<comment> \<open>the quotient\<close>
  have Q1: "1 / 96 \<le> B / C" "B / C \<le> 20"
  proof -
    have "1 / 32 / 3 \<le> B / C" using B1 Cr by (intro frac_le) simp_all
    then show "1 / 96 \<le> B / C" by simp
    have "B / C \<le> 5 / (1 / 4)" using B1 Cr by (intro frac_le) simp_all
    then show "B / C \<le> 20" by simp
  qed
  have "2 powi (- 1022) \<le> B / C" "B / C \<le> 2 powi 1023"
    using Q1 tiny_le huge_ge by linarith+
  then obtain F where F: "fl64 (B / C) = Num F"
    and Fl: "B / C * (1 - u) \<le> F" and Fu: "F \<le> B / C * (1 + u)"
    unfolding u_def by (rule fl64_normal)
  have eq: "ddiv (dmul (Num 2) (dmul (Num p) (Num p))) (dadd (Num p) (Num p)) = Num F"
  proof -
    have "C \<noteq> 0" using Cp by simp
    then have "ddiv (Num B) (Num C) = Num F" by (simp only: ddiv.simps F if_False)
    then show ?thesis by (simp only: dmul.simps dadd.simps A B C)
  qed
  \<comment> \<open>the quotient is within \<open>4u\<close> of \<open>p\<close>\<close>
  have uu: "u * u \<le> u / 1024" using mult_left_mono [OF u1, of u] u0 by simp
  have ppuu: "p * p * (u * u) \<le> p * p * (u / 1024)"
    using uu pp by (intro mult_left_mono) simp_all
  have ppuu0: "0 \<le> p * p * (u * u)" using pp u0 by simp
  have Bup: "B \<le> 2 * (p * p) * ((1 + u) * (1 + u))"
  proof -
    have "2 * A * (1 + u) \<le> 2 * (p * p * (1 + u)) * (1 + u)"
      using Au u0 by (intro mult_right_mono mult_left_mono) simp_all
    then show ?thesis using Bu by (simp add: algebra_simps)
  qed
  have Blo: "2 * (p * p) * ((1 - u) * (1 - u)) \<le> B"
  proof -
    have "2 * (p * p * (1 - u)) * (1 - u) \<le> 2 * A * (1 - u)"
      using Al u1 by (intro mult_right_mono mult_left_mono) simp_all
    then show ?thesis using Bl by (simp add: algebra_simps)
  qed
  have pC_lo: "p * ((p + p) * (1 - u)) \<le> p * C"
    using Cl p0 by (intro mult_left_mono) simp_all
  have pC_hi: "p * C \<le> p * ((p + p) * (1 + u))"
    using Cu p0 by (intro mult_left_mono) simp_all
  have Qu: "B / C \<le> p * (1 + 4 * u)"
  proof -
    have "B \<le> p * (1 + 4 * u) * C"
    proof -
      have "2 * (p * p) * ((1 + u) * (1 + u)) \<le> (1 + 4 * u) * (p * ((p + p) * (1 - u)))"
        using ppuu ppuu0 ppu by (simp add: algebra_simps)
      also have "\<dots> \<le> (1 + 4 * u) * (p * C)"
        by (rule mult_left_mono [OF pC_lo]) (use u0 in simp)
      finally show ?thesis using Bup by (simp add: algebra_simps)
    qed
    then show ?thesis using Cp by (simp add: pos_divide_le_eq)
  qed
  have Ql: "p * (1 - 4 * u) \<le> B / C"
  proof -
    have "p * (1 - 4 * u) * C \<le> B"
    proof -
      have "(1 - 4 * u) * (p * C) \<le> (1 - 4 * u) * (p * ((p + p) * (1 + u)))"
        by (rule mult_left_mono [OF pC_hi]) (use u1 in simp)
      also have "\<dots> \<le> 2 * (p * p) * ((1 - u) * (1 - u))"
        using ppuu ppuu0 ppu by (simp add: algebra_simps)
      finally show ?thesis using Blo by (simp add: algebra_simps)
    qed
    then show ?thesis using Cp by (simp add: pos_le_divide_eq)
  qed
  \<comment> \<open>and the rounded quotient within \<open>8u\<close>\<close>
  have puu: "p * (u * u) \<le> p * (u / 1024)"
    using uu p0 by (intro mult_left_mono) simp_all
  have puu0: "0 \<le> p * (u * u)" using p0 u0 by simp
  have "F \<le> p * (1 + 4 * u) * (1 + u)"
  proof -
    have "B / C * (1 + u) \<le> p * (1 + 4 * u) * (1 + u)"
      using Qu u0 by (intro mult_right_mono) simp_all
    then show ?thesis using Fu by linarith
  qed
  then have up: "F \<le> p + 8 * u * p"
    using puu puu0 pu by (simp add: algebra_simps)
  have "p * (1 - 4 * u) * (1 - u) \<le> F"
  proof -
    have "p * (1 - 4 * u) * (1 - u) \<le> B / C * (1 - u)"
      using Ql u1 by (intro mult_right_mono) simp_all
    then show ?thesis using Fl by linarith
  qed
  then have lo: "p - 8 * u * p \<le> F"
    using puu puu0 pu by (simp add: algebra_simps)
  have e: "8 * u = 2 powi (- 50)"
    unfolding u_def using power_int_add [of "2::real" 3 "- 53"] by simp
  have "\<bar>F - p\<bar> \<le> 8 * u * p"
    using up lo by linarith
  then have "\<bar>F - p\<bar> \<le> 2 powi (- 50) * p"
    by (simp only: e)
  then show ?thesis using that [OF eq] by blast
qed

lemma fl64_div: "fl64 (1 / 5) = Num (3602879701896397 / 18014398509481984)"
  by (subst fl64_at [of "-3"]) (simp_all add: round_half_even_def)

lemma fl64_acc_mape: "fl64 (3602879701896397 / 18014398509481984) = Num (3602879701896397 / 18014398509481984)"
  by (subst fl64_at [of "-3"]) (simp_all add: round_half_even_def)

lemma fl64_one_minus: "fl64 (14411518807585587 / 18014398509481984) = Num (3602879701896397 / 4503599627370496)"
  by (subst fl64_at [of "-1"]) (simp_all add: round_half_even_def)

lemma fl64_prod: "fl64 (12980742146337070512478121581609 / 20282409603651670423947251286016) = Num (1441151880758559 / 2251799813685248)"
  by (subst fl64_at [of "-1"]) (simp_all add: round_half_even_def)

lemma fl64_twice: "fl64 (1441151880758559 / 1125899906842624) = Num (1441151880758559 / 1125899906842624)"
  by (subst fl64_at [of "0"]) (simp_all add: round_half_even_def)

lemma fl64_sum: "fl64 (3602879701896397 / 2251799813685248) = Num (3602879701896397 / 2251799813685248)"
  by (subst fl64_at [of "0"]) (simp_all add: round_half_even_def)

lemma fl64_quot: "fl64 (2882303761517118 / 3602879701896397) = Num (7205759403792795 / 9007199254740992)"
  by (subst fl64_at [of "-1"]) (simp_all add: round_half_even_def)

lemma scores_five_four:
  "calculateMetrics_scores_double [Num 5] [Num 4] =
     \<lparr>accuracy_d = Num (3602879701896397 / 4503599627370496),
      precision_d = Num (3602879701896397 / 4503599627370496),
      recall_d = Num (3602879701896397 / 4503599627370496),
      f1Score_d = Num (7205759403792795 / 9007199254740992)\<rparr>"
  using fl64_nat [of 1]
  by (simp add: calculateMetrics_scores_double_def Let_def mape_step_d_def fl64_div
      fl64_acc_mape fl64_one_minus fl64_three_tenths fl64_prod fl64_twice fl64_sum fl64_quot
      Math_max_def)

text \<open>
  C10 (amended). For non-empty actual and predicted sequences, precision and recall as
  computed in double precision are the same value, max(0.3, accuracy). The F1 score
  2pr/(p + r) agrees with it up to rounding: either both are NaN, or both are finite and
  differ by at most \<open>2^-50\<close> times the precision. They need not be equal.
\<close>

theorem calculateMetrics_scores_double_close:
  assumes "actual \<noteq> []" and "predicted \<noteq> []"
  shows "precision_d (calculateMetrics_scores_double actual predicted) =
           Math_max (fl64 (3 / 10)) (accuracy_d (calculateMetrics_scores_double actual predicted))
       \<and> recall_d (calculateMetrics_scores_double actual predicted) =
           Math_max (fl64 (3 / 10)) (accuracy_d (calculateMetrics_scores_double actual predicted))
       \<and> precision_d (calculateMetrics_scores_double actual predicted) =
           recall_d (calculateMetrics_scores_double actual predicted)
       \<and> close_to (2 powi (- 50))
             (precision_d (calculateMetrics_scores_double actual predicted))
             (f1Score_d (calculateMetrics_scores_double actual predicted))"
proof -
  let ?n = "min (length actual) (length predicted)"
  let ?m = "ddiv (foldl (mape_step_d actual predicted) (Num 0) [0..<?n]) (Num (real ?n))"
  let ?P = "Math_max (fl64 (3 / 10)) (Math_max (Num 0) (dsub (Num 1) ?m))"
  have n: "?n \<noteq> 0" "0 < real ?n" using assms by simp_all
  have "nonneg (foldl (mape_step_d actual predicted) (Num 0) [0..<?n])"
    by (rule mape_fold_nonneg) simp
  then have "nonneg ?m" using n(2) by (rule nonneg_ddiv_pos)
  then have P: "?P = NaN \<or> in_range (1 / 4) 1 ?P"
    by (intro precision_class accuracy_class)
  have close: "close_to (2 powi (- 50)) ?P (ddiv (dmul (Num 2) (dmul ?P ?P)) (dadd ?P ?P))"
  proof (cases ?P)
    case (Num p)
    then have "1 / 4 \<le> p" "p \<le> 1" using P by simp_all
    then obtain f where f: "ddiv (dmul (Num 2) (dmul (Num p) (Num p))) (dadd (Num p) (Num p)) = Num f"
      and b: "\<bar>f - p\<bar> \<le> 2 powi (- 50) * p"
      by (rule f1_double_close)
    have "0 \<le> p" using \<open>1 / 4 \<le> p\<close> by simp
    then have "\<bar>f - p\<bar> \<le> 2 powi (- 50) * \<bar>p\<bar>" using b by simp
    then show ?thesis unfolding Num f by (simp only: close_to.simps)
  next
    case PInf
    then show ?thesis using P by simp
  next
    case NInf
    then show ?thesis using P by simp
  next
    case NaN
    then show ?thesis by simp
  qed
  show ?thesis
    using n(1) close
    by (simp add: calculateMetrics_scores_double_def Let_def del: min_less_iff_conj)
qed


theorem calculateMetrics_scores_double_close_witness:
  "precision_d (calculateMetrics_scores_double [Num 5] [Num 4]) =
     recall_d (calculateMetrics_scores_double [Num 5] [Num 4]) \<and>
   close_to (2 powi (- 50))
     (precision_d (calculateMetrics_scores_double [Num 5] [Num 4]))
     (f1Score_d (calculateMetrics_scores_double [Num 5] [Num 4])) \<and>
   precision_d (calculateMetrics_scores_double [Num 5] [Num 4]) =
     Num (3602879701896397 / 4503599627370496)"
  using calculateMetrics_scores_double_close [of "[Num 5]" "[Num 4]"]
  by (simp add: scores_five_four)

text \<open>
  With actual [5] and predicted [4] the doubles are precision = recall = 0.8 and
  f1Score = 0.8000000000000002, one unit in the last place above.
\<close>

theorem calculateMetrics_scores_double_counterexample:
  "precision_d (calculateMetrics_scores_double [Num 5] [Num 4]) =
     Num (3602879701896397 / 4503599627370496) \<and>
   f1Score_d (calculateMetrics_scores_double [Num 5] [Num 4]) =
     Num (7205759403792795 / 9007199254740992) \<and>
   f1Score_d (calculateMetrics_scores_double [Num 5] [Num 4]) \<noteq>
     precision_d (calculateMetrics_scores_double [Num 5] [Num 4])"
  by (simp add: scores_five_four)

subsection \<open>Model results\<close>

lemma length_draws: "length (fst (draws k rnd)) = k"
proof (induction k arbitrary: rnd)
  case 0
  then show ?case by simp
next
  case (Suc k)
  obtain rs rnd' where d: "draws k (\<lambda>i. rnd (Suc i)) = (rs, rnd')"
    by (cases "draws k (\<lambda>i. rnd (Suc i))")
  have "length rs = k" using Suc.IH [of "\<lambda>i. rnd (Suc i)"] d by simp
  then show ?case by (simp add: draw_def d)
qed

lemma hw_forecast_lengths:
  "length (fst (foldl (hw_forecast_step n sl lv tr se) st hs)) = length (fst st) + length hs \<and>
   length (snd (foldl (hw_forecast_step n sl lv tr se) st hs)) = length (snd st) + length hs"
proof (induction hs arbitrary: st)
  case Nil
  then show ?case by simp
next
  case (Cons h hs)
  obtain ps cs where st: "st = (ps, cs)" by (cases st)
  obtain x y where step: "hw_forecast_step n sl lv tr se st h = (ps @ [x], cs @ [y])"
    by (simp add: st hw_forecast_step_def Let_def)
  show ?case
    using Cons.IH [of "(ps @ [x], cs @ [y])"] by (simp add: step) (simp add: st)
qed

lemma simpleExponentialSmoothing_lengths:
  "length (confidence (simpleExponentialSmoothing data alpha)) = 1 \<and>
   length (predictions (simpleExponentialSmoothing data alpha)) = 1"
  by (simp add: simpleExponentialSmoothing_def Let_def)

lemma calculateARIMA_lengths:
  "length (confidence (fst (calculateARIMA rnd data p d q))) =
   length (predictions (fst (calculateARIMA rnd data p d q)))"
proof -
  let ?ps = "map (\<lambda>val. Math_max (Num 0) val) (autoregressive (differenceData data d) p)"
  obtain rs rnd' where dr: "draws (length ?ps) rnd = (rs, rnd')" by (cases "draws (length ?ps) rnd")
  have "length rs = length ?ps" using length_draws [of "length ?ps" rnd] dr by simp
  then show ?thesis
    using dr by (simp add: calculateARIMA_def Let_def)
qed

lemma calculateExponentialSmoothing_lengths:
  "length (confidence (calculateExponentialSmoothing data alpha beta gamma seasonLength)) =
   length (predictions (calculateExponentialSmoothing data alpha beta gamma seasonLength))"
proof (cases "length data < seasonLength * 2")
  case True
  then show ?thesis
    by (simp add: calculateExponentialSmoothing_def simpleExponentialSmoothing_lengths)
next
  case False
  obtain lv tr se where fit: "hw_fit data alpha beta gamma seasonLength = (lv, tr, se)"
    by (metis prod_cases3)
  obtain ps cs where
    fc: "foldl (hw_forecast_step (length data) seasonLength lv tr se) ([], []) [Suc 0..<8]
           = (ps, cs)"
    by (cases "foldl (hw_forecast_step (length data) seasonLength lv tr se) ([], [])
                 [Suc 0..<8]")
  have "length ps = 7 \<and> length cs = 7"
    using hw_forecast_lengths [of "length data" seasonLength lv tr se "([], [])" "[Suc 0..<8]"]
    unfolding fc by simp
  then show ?thesis
    using False by (simp add: calculateExponentialSmoothing_def Let_def fit fc)
qed

lemma calculateNeuralNetworkForecast_lengths:
  "length (confidence (fst (calculateNeuralNetworkForecast rnd data windowSize))) =
   length (predictions (fst (calculateNeuralNetworkForecast rnd data windowSize)))"
  by (simp add: calculateNeuralNetworkForecast_def Let_def simpleExponentialSmoothing_lengths
      split: prod.splits)

text \<open>
  C9. Each of the model constructors (ARIMA, Holt-Winters with its simple exponential
  smoothing fallback, neural network) returns a confidence sequence of the same length as
  its prediction sequence, whatever the series and the parameters.
\<close>

theorem model_confidence_length:
  "length (confidence (fst (calculateARIMA rnd data p d q))) =
     length (predictions (fst (calculateARIMA rnd data p d q))) \<and>
   length (confidence (calculateExponentialSmoothing data alpha beta gamma seasonLength)) =
     length (predictions (calculateExponentialSmoothing data alpha beta gamma seasonLength)) \<and>
   length (confidence (simpleExponentialSmoothing data alpha)) =
     length (predictions (simpleExponentialSmoothing data alpha)) \<and>
   length (confidence (fst (calculateNeuralNetworkForecast rnd data windowSize))) =
     length (predictions (fst (calculateNeuralNetworkForecast rnd data windowSize)))"
  using calculateARIMA_lengths calculateExponentialSmoothing_lengths
    simpleExponentialSmoothing_lengths calculateNeuralNetworkForecast_lengths
  by simp

subsection \<open>Minimum history of the advanced pipeline\<close>

lemma group_by_item_snoc: "group_by_item (xs @ [x]) = add_sale (group_by_item xs) x"
  by (simp add: group_by_item_def)

lemma add_sale_fst_new:
  "itemName x \<notin> fst ` set G \<Longrightarrow> add_sale G x = G @ [(itemName x, [x])]"
  by (simp add: add_sale_def)

lemma add_sale_fst_old:
  "itemName x \<in> fst ` set G \<Longrightarrow>
   add_sale G x = map (\<lambda>(k, v). if k = itemName x then (k, v @ [x]) else (k, v)) G"
  by (simp add: add_sale_def)

lemma map_fst_add_sale_old:
  "map fst (map (\<lambda>(k, v). if k = key then (k, v @ [x]) else (k, v)) G) = map fst G"
  by (induction G) auto

text \<open>
  The groups after any prefix of the batch: the keys are distinct and are the item names
  seen, and each group holds the sales of its item, in batch order.
\<close>

lemma group_by_item_invariant:
  "distinct (map fst (group_by_item xs)) \<and>
   fst ` set (group_by_item xs) = itemName ` set xs \<and>
   (\<forall>(k, v) \<in> set (group_by_item xs). v = filter (\<lambda>s. itemName s = k) xs)"
proof (induction xs rule: rev_induct)
  case Nil
  then show ?case by (simp add: group_by_item_def)
next
  case (snoc x xs)
  let ?G = "group_by_item xs"
  show ?case
  proof (cases "itemName x \<in> fst ` set ?G")
    case False
    have eq: "group_by_item (xs @ [x]) = ?G @ [(itemName x, [x])]"
      using False by (simp add: group_by_item_snoc add_sale_fst_new)
    have notin: "itemName x \<notin> itemName ` set xs" using False snoc.IH by simp
    have nx: "filter (\<lambda>s. itemName s = itemName x) xs = []"
      unfolding filter_empty_conv using notin by (metis imageI)
    have "\<forall>(k, v) \<in> set ?G. k \<noteq> itemName x"
      using False by force
    then show ?thesis
      unfolding eq using snoc.IH False nx by auto
  next
    case True
    have eq: "group_by_item (xs @ [x]) =
                map (\<lambda>(k, v). if k = itemName x then (k, v @ [x]) else (k, v)) ?G"
      using True by (simp add: group_by_item_snoc add_sale_fst_old)
    have d: "distinct (map fst (group_by_item (xs @ [x])))"
      unfolding eq map_fst_add_sale_old using snoc.IH by simp
    have k: "fst ` set (group_by_item (xs @ [x])) = itemName ` set (xs @ [x])"
    proof -
      have "fst ` set (group_by_item (xs @ [x])) = set (map fst (group_by_item (xs @ [x])))"
        by simp
      also have "\<dots> = set (map fst ?G)" unfolding eq map_fst_add_sale_old ..
      finally show ?thesis using snoc.IH True by auto
    qed
    have v: "\<forall>(k, v) \<in> set (group_by_item (xs @ [x])).
               v = filter (\<lambda>s. itemName s = k) (xs @ [x])"
    proof (clarify)
      fix k v assume "(k, v) \<in> set (group_by_item (xs @ [x]))"
      then obtain a b where ab: "(a, b) \<in> set ?G"
        and kv: "(k, v) = (if a = itemName x then (a, b @ [x]) else (a, b))"
        unfolding eq by auto
      have b: "b = filter (\<lambda>s. itemName s = a) xs" using snoc.IH ab by auto
      show "v = filter (\<lambda>s. itemName s = k) (xs @ [x])"
      proof (cases "a = itemName x")
        case True
        then show ?thesis using kv b by simp
      next
        case False
        then have "k = a" "v = b" "itemName x \<noteq> k" using kv by auto
        then show ?thesis using b by simp
      qed
    qed
    show ?thesis using d k v by blast
  qed
qed

lemma advanced_item_names:
  "map r_itemName (fst (advanced_item options (results, rnd) (key, v))) =
     map r_itemName results @ (if length v < 7 then [] else [key])"
  by (simp add: advanced_item_def Let_def sort_by_date_def split: prod.splits)

lemma advanced_fold_names:
  "map r_itemName (fst (foldl (advanced_item options) st groups)) =
     map r_itemName (fst st) @ map fst (filter (\<lambda>(k, v). \<not> length v < 7) groups)"
proof (induction groups arbitrary: st)
  case Nil
  then show ?case by simp
next
  case (Cons g groups)
  obtain results rnd where st: "st = (results, rnd)" by (cases st)
  obtain key v where g: "g = (key, v)" by (cases g)
  show ?case
    unfolding foldl_Cons Cons.IH
    by (simp add: st g advanced_item_names)
qed

lemma generateAdvancedForecasts_names:
  "map r_itemName (fst (generateAdvancedForecasts rnd salesData options)) =
     map fst (filter (\<lambda>(k, v). 7 \<le> length v) (group_by_item salesData))"
  by (simp add: generateAdvancedForecasts_def advanced_fold_names not_less)

text \<open>
  C7. The advanced pipeline returns a bundle for an item exactly when the batch holds at
  least 7 observations of it: an item with fewer than 7 observations never appears in the
  result, and skipping it is not an error (the pipeline has no failing path).
\<close>

theorem generateAdvancedForecasts_min_data:
  "(k \<in> set (map r_itemName (fst (generateAdvancedForecasts rnd salesData options)))) =
   (7 \<le> length (filter (\<lambda>s. itemName s = k) salesData))"
proof -
  let ?G = "group_by_item salesData"
  have inv: "\<forall>(k, v) \<in> set ?G. v = filter (\<lambda>s. itemName s = k) salesData"
    and keys: "fst ` set ?G = itemName ` set salesData"
    using group_by_item_invariant [of salesData] by blast+
  have "(k \<in> set (map fst (filter (\<lambda>(k, v). 7 \<le> length v) ?G))) =
        (7 \<le> length (filter (\<lambda>s. itemName s = k) salesData))"
  proof
    assume "k \<in> set (map fst (filter (\<lambda>(k, v). 7 \<le> length v) ?G))"
    then obtain v where "(k, v) \<in> set ?G" "7 \<le> length v" by auto
    then show "7 \<le> length (filter (\<lambda>s. itemName s = k) salesData)"
      using inv by auto
  next
    assume len: "7 \<le> length (filter (\<lambda>s. itemName s = k) salesData)"
    then have "filter (\<lambda>s. itemName s = k) salesData \<noteq> []" by auto
    then have "k \<in> itemName ` set salesData"
      by (auto simp: filter_empty_conv)
    then obtain v where kv: "(k, v) \<in> set ?G" using keys by force
    then have "v = filter (\<lambda>s. itemName s = k) salesData" using inv by auto
    then show "k \<in> set (map fst (filter (\<lambda>(k, v). 7 \<le> length v) ?G))"
      using kv len by force
  qed
  then show ?thesis by (simp only: generateAdvancedForecasts_names)
qed


theorem generateAdvancedForecasts_min_data_witness:
  "''A'' \<in> set (map r_itemName (fst (generateAdvancedForecasts (\<lambda>i. 0)
      (map (\<lambda>(k, d). \<lparr>itemName = k, category = ''Y'', quantity = Num 5, revenue = Num 0,
                        date = d\<rparr>)
         [(''A'', 1), (''B'', 2), (''A'', 3), (''A'', 4), (''A'', 5), (''A'', 6), (''A'', 7),
          (''A'', 8)])
      \<lparr>opt_period = daily, horizon = Num 7, ensembleMethod = None\<rparr>))) \<and>
   ''B'' \<notin> set (map r_itemName (fst (generateAdvancedForecasts (\<lambda>i. 0)
      (map (\<lambda>(k, d). \<lparr>itemName = k, category = ''Y'', quantity = Num 5, revenue = Num 0,
                        date = d\<rparr>)
         [(''A'', 1), (''B'', 2), (''A'', 3), (''A'', 4), (''A'', 5), (''A'', 6), (''A'', 7),
          (''A'', 8)])
      \<lparr>opt_period = daily, horizon = Num 7, ensembleMethod = None\<rparr>)))"
  unfolding generateAdvancedForecasts_min_data by simp

subsection \<open>Seasonal decomposition in double precision\<close>

lemma set_at_in_range: "i < length xs \<Longrightarrow> set_at xs i v = xs[i := v]"
  by (simp add: set_at_def)

lemma fill_prefix:
  "m \<le> length xs \<Longrightarrow>
   foldl (\<lambda>ys i. set_at ys i (f i)) xs [0..<m] = map f [0..<m] @ drop m xs"
proof (induction m)
  case 0
  then show ?case by simp
next
  case (Suc m)
  have len: "m < length (map f [0..<m] @ drop m xs)" using Suc.prems by simp
  have "foldl (\<lambda>ys i. set_at ys i (f i)) xs [0..<Suc m] =
          set_at (map f [0..<m] @ drop m xs) m (f m)"
    using Suc by simp
  also have "\<dots> = (map f [0..<m] @ drop m xs)[m := f m]"
    using len by (rule set_at_in_range)
  also have "\<dots> = map f [0..<m] @ (drop m xs)[0 := f m]"
    by (simp add: list_update_append)
  also have "(drop m xs)[0 := f m] = f m # drop (Suc m) xs"
    using Suc.prems by (cases "drop m xs") (auto simp: drop_Suc drop_tl)
  finally show ?case by simp
qed

lemma fill_all:
  "foldl (\<lambda>ys i. set_at ys i (f i)) (new_Array n) [0..<n] = map f [0..<n]"
  using fill_prefix [of n "new_Array n" f] by (simp add: new_Array_def)


lemma pair_fill_prefix:
  "m \<le> length se \<Longrightarrow> m \<le> length re \<Longrightarrow>
   foldl (\<lambda>(se, re) i.
            (set_at se i (g i), set_at re i (h i (elem (set_at se i (g i)) i)))) (se, re) [0..<m]
   = (map g [0..<m] @ drop m se, map (\<lambda>i. h i (g i)) [0..<m] @ drop m re)"
proof (induction m)
  case 0
  then show ?case by simp
next
  case (Suc m)
  let ?se = "map g [0..<m] @ drop m se"
  let ?re = "map (\<lambda>i. h i (g i)) [0..<m] @ drop m re"
  have ls: "m < length ?se" and lr: "m < length ?re" using Suc.prems by simp_all
  have se: "set_at ?se m (g m) = map g [0..<Suc m] @ drop (Suc m) se"
  proof -
    have "set_at ?se m (g m) = ?se[m := g m]" using ls by (rule set_at_in_range)
    also have "\<dots> = map g [0..<m] @ (drop m se)[0 := g m]"
      by (simp add: list_update_append)
    also have "(drop m se)[0 := g m] = g m # drop (Suc m) se"
      using Suc.prems by (cases "drop m se") (auto simp: drop_Suc drop_tl)
    finally show ?thesis by simp
  qed
  have el: "elem (map g [0..<Suc m] @ drop (Suc m) se) m = g m"
    by (simp add: elem_def nth_append)
  have re: "set_at ?re m (h m (g m)) = map (\<lambda>i. h i (g i)) [0..<Suc m] @ drop (Suc m) re"
  proof -
    have "set_at ?re m (h m (g m)) = ?re[m := h m (g m)]" using lr by (rule set_at_in_range)
    also have "\<dots> = map (\<lambda>i. h i (g i)) [0..<m] @ (drop m re)[0 := h m (g m)]"
      by (simp add: list_update_append)
    also have "(drop m re)[0 := h m (g m)] = h m (g m) # drop (Suc m) re"
      using Suc.prems by (cases "drop m re") (auto simp: drop_Suc drop_tl)
    finally show ?thesis by simp
  qed
  have IH: "foldl (\<lambda>(se, re) i.
            (set_at se i (g i), set_at re i (h i (elem (set_at se i (g i)) i)))) (se, re) [0..<m] = (?se, ?re)"
    using Suc by simp
  show ?case
    unfolding upt_Suc_append [OF le0] foldl_append IH
    by (simp add: se el re del: upt_Suc) simp
qed

lemma pair_fill_all:
  "foldl (\<lambda>(se, re) i.
            (set_at se i (g i), set_at re i (h i (elem (set_at se i (g i)) i)))) (new_Array n, new_Array n) [0..<n]
   = (map g [0..<n], map (\<lambda>i. h i (g i)) [0..<n])"
  using pair_fill_prefix [of n "new_Array n" "new_Array n" g h] by (simp add: new_Array_def)

text \<open>
  The sum \<^verbatim>\<open>t + s + ((x - t) - s)\<close> in double precision: four rounded operations, each
  with a relative error of at most \<open>2^-53\<close> of a quantity no larger than
  \<open>|x| + |t| + |s|\<close>.
\<close>

lemma roundtrip_error:
  assumes M: "\<bar>x\<bar> + \<bar>t\<bar> + \<bar>s\<bar> \<le> 2 powi 1000"
  shows "within_tol (2 powi (- 50) * (\<bar>x\<bar> + \<bar>t\<bar> + \<bar>s\<bar>) + 2 powi (- 1072)) (Num x)
           (dadd (dadd (Num t) (Num s)) (dsub (dsub (Num x) (Num t)) (Num s)))"
proof -
  define u :: real where "u = 2 powi (- 53)"
  define h :: real where "h = 2 powi (- 1075)"
  define P :: real where "P = 2 powi 1000"
  define m where "m = \<bar>x\<bar> + \<bar>t\<bar> + \<bar>s\<bar>"
  define A where "A = m * u"
  have u0: "0 < u" by (simp add: u_def)
  have u1: "u \<le> 1 / 8"
  proof -
    have "(2::real) powi (- 53) \<le> 2 powi (- 3)" by (simp only: two_powi_le_iff)
    then show ?thesis by (simp add: u_def)
  qed
  have h0: "0 < h" by (simp add: h_def)
  have h1: "h \<le> 1"
  proof -
    have "(2::real) powi (- 1075) \<le> 2 powi 0" by (simp only: two_powi_le_iff)
    then show ?thesis by (simp add: h_def)
  qed
  have P1: "1 \<le> P"
  proof -
    have "(2::real) powi 0 \<le> 2 powi 1000" by (simp only: two_powi_le_iff)
    then show ?thesis by (simp add: P_def)
  qed
  have P8: "8 * P \<le> 2 powi 1023"
  proof -
    have "(2::real) powi 1003 \<le> 2 powi 1023" by (simp only: two_powi_le_iff)
    moreover have "(2::real) powi 1003 = 2 powi 3 * 2 powi 1000"
      using power_int_add [of "2::real" 3 1000] by simp
    ultimately show ?thesis by (simp add: P_def)
  qed
  have m0: "0 \<le> m" by (simp add: m_def)
  have mP: "m \<le> P" using M by (simp add: m_def P_def)
  have A0: "0 \<le> A" using m0 u0 by (simp add: A_def)
  have Am: "A \<le> m / 8"
    using mult_left_mono [OF u1 m0] by (simp add: A_def)
  have Au: "A * u \<le> A / 8"
    using mult_left_mono [OF u1 A0] by simp
  have hu: "h * u \<le> h / 8"
    using mult_left_mono [OF u1, of h] h0 by simp
  \<comment> \<open>data[i] - trend[i]\<close>
  have xt: "\<bar>x - t\<bar> \<le> m" by (simp add: m_def)
  then have "\<bar>x - t\<bar> \<le> 2 powi 1023" using mP P1 P8 by linarith
  then obtain a where a: "fl64 (x - t) = Num a"
    and "\<bar>a - (x - t)\<bar> \<le> \<bar>x - t\<bar> * u + h"
    unfolding u_def h_def by (rule fl64_error)
  moreover have "\<bar>x - t\<bar> * u \<le> m * u" using xt u0 by (intro mult_right_mono) simp_all
  ultimately have e1: "\<bar>a - (x - t)\<bar> \<le> A + h" by (simp add: A_def)
  \<comment> \<open>the residual\<close>
  have as: "\<bar>a - s\<bar> \<le> m + A + h" using e1 by (simp add: m_def)
  then have "\<bar>a - s\<bar> \<le> 2 powi 1023" using mP P1 P8 Am h1 by linarith
  then obtain r where r: "fl64 (a - s) = Num r"
    and "\<bar>r - (a - s)\<bar> \<le> \<bar>a - s\<bar> * u + h"
    unfolding u_def h_def by (rule fl64_error)
  moreover have "\<bar>a - s\<bar> * u \<le> (m + A + h) * u" using as u0 by (intro mult_right_mono) simp_all
  moreover have "(m + A + h) * u = A + A * u + h * u" by (simp add: A_def algebra_simps)
  ultimately have e2: "\<bar>r - (a - s)\<bar> \<le> A + A / 8 + h / 8 + h" using Au hu by linarith
  \<comment> \<open>trend[i] + seasonal[i]\<close>
  have ts: "\<bar>t + s\<bar> \<le> m" by (simp add: m_def)
  then have "\<bar>t + s\<bar> \<le> 2 powi 1023" using mP P1 P8 by linarith
  then obtain b where b: "fl64 (t + s) = Num b"
    and "\<bar>b - (t + s)\<bar> \<le> \<bar>t + s\<bar> * u + h"
    unfolding u_def h_def by (rule fl64_error)
  moreover have "\<bar>t + s\<bar> * u \<le> m * u" using ts u0 by (intro mult_right_mono) simp_all
  ultimately have e3: "\<bar>b - (t + s)\<bar> \<le> A + h" by (simp add: A_def)
  \<comment> \<open>the sum of the three\<close>
  define d where "d = 4 * A + 4 * h"
  have d0: "0 \<le> d" using A0 h0 by (simp add: d_def)
  have "d * u \<le> d * (1 / 8)" using u1 d0 by (rule mult_left_mono)
  moreover have "d * (1 / 8) = A / 2 + h / 2" by (simp add: d_def)
  ultimately have du: "d * u \<le> A / 2 + h / 2" by simp
  have br: "\<bar>b + r - x\<bar> \<le> d" using e1 e2 e3 A0 h0 unfolding d_def by linarith
  have x: "\<bar>x\<bar> \<le> m" by (simp add: m_def)
  have brm: "\<bar>b + r\<bar> \<le> m + d" using br x by linarith
  then have "\<bar>b + r\<bar> \<le> 2 powi 1023" using mP P1 P8 Am h1 unfolding d_def by linarith
  then obtain S where S: "fl64 (b + r) = Num S"
    and "\<bar>S - (b + r)\<bar> \<le> \<bar>b + r\<bar> * u + h"
    unfolding u_def h_def by (rule fl64_error)
  moreover have "\<bar>b + r\<bar> * u \<le> (m + d) * u" using brm u0 by (intro mult_right_mono) simp_all
  moreover have "(m + d) * u = A + d * u" by (simp add: A_def algebra_simps)
  ultimately have e4: "\<bar>S - (b + r)\<bar> \<le> A + (A / 2 + h / 2) + h" using du by linarith
  have "\<bar>S - x\<bar> \<le> \<bar>S - (b + r)\<bar> + \<bar>b + r - x\<bar>" by linarith
  then have "\<bar>S - x\<bar> \<le> (A + (A / 2 + h / 2) + h) + (4 * A + 4 * h)"
    using e4 br unfolding d_def by linarith
  then have "\<bar>S - x\<bar> \<le> 8 * A + 8 * h" using A0 h0 by linarith
  moreover have "8 * A = 2 powi (- 50) * m"
    unfolding A_def u_def using power_int_add [of "2::real" 3 "- 53"] by simp
  moreover have "8 * h = 2 powi (- 1072)"
    unfolding h_def using power_int_add [of "2::real" 3 "- 1075"] by simp
  ultimately have "\<bar>S - x\<bar> \<le> 2 powi (- 50) * m + 2 powi (- 1072)" by (simp only:)
  moreover have "dadd (dadd (Num t) (Num s)) (dsub (dsub (Num x) (Num t)) (Num s)) = Num S"
    by (simp only: dsub.simps dadd.simps a r b S)
  ultimately show ?thesis by (simp only: within_tol.simps m_def)
qed

text \<open>The result of the decomposition, each loop replaced by what it fills in.\<close>

lemma decomposeTimeSeries_double_shape:
  "\<exists>pattern.
     decomposeTimeSeries_double data seasonLength =
       \<lparr>trend = map (trend_at_d data (seasonLength div 2)) [0..<length data],
         seasonal = map (\<lambda>i. elem_opt pattern (imod i seasonLength)) [0..<length data],
         residual = map (\<lambda>i. dsub (dsub (data ! i)
                                  (map (trend_at_d data (seasonLength div 2)) [0..<length data] ! i))
                              (elem_opt pattern (imod i seasonLength)))
                        [0..<length data]\<rparr> \<and>
     pattern =
       map (\<lambda>i. case foldl (seasonal_push_d data
                              (map (trend_at_d data (seasonLength div 2)) [0..<length data])
                              seasonLength) Map.empty [0..<length data] (Some i) of
                   Some vs \<Rightarrow> ddiv (dsum vs) (jlen vs)
                 | None \<Rightarrow> Num 0) [0..<seasonLength]"
  unfolding decomposeTimeSeries_double_def Let_def fill_all
  by (subst pair_fill_all
        [where h = "\<lambda>i s. dsub (dsub (data ! i)
           (map (trend_at_d data (seasonLength div 2)) [0..<length data] ! i)) s"]) simp

lemma bounded_by_Num:
  assumes "bounded_by B v"
  obtains x where "v = Num x" and "\<bar>x\<bar> \<le> B"
  using assms by (cases v) simp_all

lemma dsum_bounded_from:
  assumes b: "- 1074 \<le> b" "b \<le> 970"
  shows "\<forall>v \<in> set vs. bounded_by (2 powi b) v \<Longrightarrow> bounded_by (real k * 2 powi b) acc \<Longrightarrow>
    k + length vs < 2 ^ 53 \<Longrightarrow>
    bounded_by (real (k + length vs) * 2 powi b) (foldl (\<lambda>sum val. dadd sum val) acc vs)"
proof (induction vs arbitrary: acc k)
  case Nil
  then show ?case by simp
next
  case (Cons v vs)
  obtain a where a: "acc = Num a" "\<bar>a\<bar> \<le> real k * 2 powi b"
    using Cons.prems(2) by (rule bounded_by_Num)
  have "bounded_by (2 powi b) v" using Cons.prems(1) by simp
  then obtain x where x: "v = Num x" "\<bar>x\<bar> \<le> 2 powi b" by (rule bounded_by_Num)
  have "\<bar>a + x\<bar> \<le> real k * 2 powi b + 2 powi b" using a(2) x(2) by linarith
  also have "\<dots> = of_int (int (Suc k)) * 2 powi b" by (simp add: algebra_simps)
  finally have le: "\<bar>a + x\<bar> \<le> of_int (int (Suc k)) * 2 powi b" .
  have "int (Suc k) < 2 ^ 53" using Cons.prems(3) by simp
  then have "bounded_by (of_int (int (Suc k)) * 2 powi b) (fl64 (a + x))"
    using le b by (intro fl64_bounded) simp_all
  then have step: "bounded_by (real (Suc k) * 2 powi b) (dadd acc v)"
    by (simp add: a x)
  have "bounded_by (real (Suc k + length vs) * 2 powi b)
          (foldl (\<lambda>sum val. dadd sum val) (dadd acc v) vs)"
    using Cons.prems by (intro Cons.IH step) simp_all
  then show ?case by simp
qed

lemma mean_bounded:
  assumes b: "- 1074 \<le> b" "b \<le> 970"
    and ne: "vs \<noteq> []" and all: "\<forall>v \<in> set vs. bounded_by (2 powi b) v"
    and len: "length vs < 2 ^ 53"
  shows "bounded_by (2 powi b) (ddiv (dsum vs) (jlen vs))"
proof -
  let ?n = "length vs"
  have "bounded_by (real 0 * 2 powi b) (Num 0)" by simp
  moreover have "0 + ?n < 2 ^ 53" using len by simp
  ultimately have "bounded_by (real (0 + ?n) * 2 powi b)
      (foldl (\<lambda>sum val. dadd sum val) (Num 0) vs)"
    using all by (intro dsum_bounded_from [OF b])
  then have "bounded_by (real ?n * 2 powi b) (dsum vs)" by (simp add: dsum_def)
  then obtain S where S: "dsum vs = Num S" "\<bar>S\<bar> \<le> real ?n * 2 powi b"
    by (rule bounded_by_Num)
  have n: "0 < real ?n" using ne by simp
  have "\<bar>S / real ?n\<bar> = \<bar>S\<bar> / real ?n" using n by simp
  also have "\<dots> \<le> 2 powi b" using S(2) n by (simp add: pos_divide_le_eq mult.commute)
  finally have "\<bar>S / real ?n\<bar> \<le> of_int 1 * 2 powi b" by simp
  then have "bounded_by (of_int 1 * 2 powi b) (fl64 (S / real ?n))"
    using b by (intro fl64_bounded) simp_all
  then show ?thesis using n by (simp add: S jlen_def)
qed

lemma trend_at_d_bounded:
  assumes b: "- 1074 \<le> b" "b \<le> 970"
    and all: "\<forall>v \<in> set data. bounded_by (2 powi b) v"
    and len: "length data < 2 ^ 53" and i: "i < length data"
  shows "bounded_by (2 powi b) (trend_at_d data halfSeason i)"
proof -
  let ?s = "i - halfSeason"
  let ?e = "min (length data) (i + halfSeason + 1)"
  let ?slice = "take (?e - ?s) (drop ?s data)"
  have "0 < ?e - ?s" "?s < length data" using i by auto
  then have ne: "?slice \<noteq> []" by auto
  have "set ?slice \<subseteq> set data"
    using set_take_subset set_drop_subset by fast
  then have bd: "\<forall>v \<in> set ?slice. bounded_by (2 powi b) v" using all by blast
  have "length ?slice \<le> length data" by simp
  then have l: "length ?slice < 2 ^ 53" using len by linarith
  show ?thesis
    unfolding trend_at_d_def Let_def by (rule mean_bounded [OF b ne bd l])
qed

lemma dsub_bounded:
  assumes b: "- 1074 \<le> b" "b \<le> 969"
    and "bounded_by (2 powi b) x" and "bounded_by (2 powi b) t"
  shows "bounded_by (2 powi (b + 1)) (dsub x t)"
proof -
  obtain x' where x: "x = Num x'" "\<bar>x'\<bar> \<le> 2 powi b" using assms(3) by (rule bounded_by_Num)
  obtain t' where t: "t = Num t'" "\<bar>t'\<bar> \<le> 2 powi b" using assms(4) by (rule bounded_by_Num)
  have "\<bar>x' - t'\<bar> \<le> 2 * 2 powi b" using x(2) t(2) by linarith
  then have "\<bar>x' - t'\<bar> \<le> of_int 1 * 2 powi (b + 1)" by (simp add: two_powi_Suc)
  then have "bounded_by (of_int 1 * 2 powi (b + 1)) (fl64 (x' - t'))"
    using b by (intro fl64_bounded) simp_all
  then show ?thesis by (simp add: x t)
qed

lemma seasonal_push_d_step:
  assumes "\<forall>k vs. M k = Some vs \<longrightarrow>
             vs \<noteq> [] \<and> length vs \<le> c \<and> (\<forall>v \<in> set vs. bounded_by B v)"
    and "bounded_by B (dsub (data ! i) (tr ! i))"
  shows "\<forall>k vs. seasonal_push_d data tr seasonLength M i k = Some vs \<longrightarrow>
           vs \<noteq> [] \<and> length vs \<le> Suc c \<and> (\<forall>v \<in> set vs. bounded_by B v)"
proof (intro allI impI)
  fix k vs assume a: "seasonal_push_d data tr seasonLength M i k = Some vs"
  show "vs \<noteq> [] \<and> length vs \<le> Suc c \<and> (\<forall>v \<in> set vs. bounded_by B v)"
  proof (cases "k = imod i seasonLength")
    case True
    then have vs: "vs = (case M k of None \<Rightarrow> [] | Some ws \<Rightarrow> ws) @ [dsub (data ! i) (tr ! i)]"
      using a by (simp add: seasonal_push_d_def Let_def)
    show ?thesis
    proof (cases "M k")
      case None
      then show ?thesis using vs assms(2) by simp
    next
      case (Some ws)
      then have "length ws \<le> c \<and> (\<forall>v \<in> set ws. bounded_by B v)" using assms(1) by blast
      then show ?thesis using vs Some assms(2) by simp
    qed
  next
    case False
    then have "M k = Some vs" using a by (simp add: seasonal_push_d_def Let_def)
    then have "vs \<noteq> [] \<and> length vs \<le> c \<and> (\<forall>v \<in> set vs. bounded_by B v)"
      using assms(1) by blast
    then show ?thesis by simp
  qed
qed

lemma seasonal_push_d_invariant:
  assumes "\<forall>k vs. M k = Some vs \<longrightarrow>
             vs \<noteq> [] \<and> length vs \<le> c \<and> (\<forall>v \<in> set vs. bounded_by B v)"
    and "\<forall>i \<in> set is. bounded_by B (dsub (data ! i) (tr ! i))"
  shows "\<forall>k vs. foldl (seasonal_push_d data tr seasonLength) M is k = Some vs \<longrightarrow>
           vs \<noteq> [] \<and> length vs \<le> c + length is \<and> (\<forall>v \<in> set vs. bounded_by B v)"
  using assms
proof (induction "is" arbitrary: M c)
  case Nil
  then show ?case by simp
next
  case (Cons i "is")
  have bd: "bounded_by B (dsub (data ! i) (tr ! i))" using Cons.prems(2) by simp
  have rest: "\<forall>j \<in> set is. bounded_by B (dsub (data ! j) (tr ! j))" using Cons.prems(2) by simp
  have "\<forall>k vs. foldl (seasonal_push_d data tr seasonLength)
                  (seasonal_push_d data tr seasonLength M i) is k = Some vs \<longrightarrow>
           vs \<noteq> [] \<and> length vs \<le> Suc c + length is \<and> (\<forall>v \<in> set vs. bounded_by B v)"
    by (rule Cons.IH [OF seasonal_push_d_step [OF Cons.prems(1) bd] rest])
  then show ?case by simp
qed

text \<open>
  For a positive season length and fewer than \<open>2^53\<close> values of magnitude at most \<open>2^b\<close>,
  every trend value has magnitude at most \<open>2^b\<close> and every seasonal value at most \<open>2^(b+1)\<close>.
\<close>

lemma decomposeTimeSeries_double_bounded:
  assumes b: "- 1074 \<le> b" "b \<le> 969"
    and all: "\<forall>v \<in> set data. bounded_by (2 powi b) v"
    and len: "length data < 2 ^ 53" and pos: "0 < seasonLength"
    and i: "i < length data"
  shows "bounded_by (2 powi b) (trend (decomposeTimeSeries_double data seasonLength) ! i)"
    and "bounded_by (2 powi (b + 1)) (seasonal (decomposeTimeSeries_double data seasonLength) ! i)"
proof -
  let ?n = "length data"
  let ?D = "decomposeTimeSeries_double data seasonLength"
  let ?tr = "map (trend_at_d data (seasonLength div 2)) [0..<?n]"
  let ?avg = "foldl (seasonal_push_d data ?tr seasonLength) Map.empty [0..<?n]"
  let ?P = "\<lambda>i. case ?avg (Some i) of Some vs \<Rightarrow> ddiv (dsum vs) (jlen vs) | None \<Rightarrow> Num 0"
  obtain pattern where D: "?D =
       \<lparr>trend = ?tr,
         seasonal = map (\<lambda>i. elem_opt pattern (imod i seasonLength)) [0..<?n],
         residual = map (\<lambda>i. dsub (dsub (data ! i) (?tr ! i))
                              (elem_opt pattern (imod i seasonLength))) [0..<?n]\<rparr>"
    and pat: "pattern = map ?P [0..<seasonLength]"
    using decomposeTimeSeries_double_shape [of data seasonLength] by blast
  have b': "b \<le> 970" "- 1074 \<le> b + 1" "b + 1 \<le> 970" using b by simp_all
  have T: "bounded_by (2 powi b) (?tr ! j)" if "j < ?n" for j
    using trend_at_d_bounded [OF b(1) b'(1) all len that] that by simp
  show "bounded_by (2 powi b) (trend ?D ! i)" using T [OF i] by (simp add: D)
  have d: "bounded_by (2 powi b) (data ! j)" if "j < ?n" for j
    using all that by simp
  have pushed: "\<forall>j \<in> set [0..<?n]. bounded_by (2 powi (b + 1)) (dsub (data ! j) (?tr ! j))"
  proof
    fix j assume "j \<in> set [0..<?n]"
    then have j: "j < ?n" by simp
    show "bounded_by (2 powi (b + 1)) (dsub (data ! j) (?tr ! j))"
      using b d [OF j] T [OF j] by (rule dsub_bounded)
  qed
  have "\<forall>k vs. Map.empty k = Some vs \<longrightarrow>
      vs \<noteq> [] \<and> length vs \<le> 0 \<and> (\<forall>v \<in> set vs. bounded_by (2 powi (b + 1)) v)"
    by simp
  then have inv: "\<forall>k vs. ?avg k = Some vs \<longrightarrow>
      vs \<noteq> [] \<and> length vs \<le> 0 + length [0..<?n] \<and>
      (\<forall>v \<in> set vs. bounded_by (2 powi (b + 1)) v)"
    using pushed by (rule seasonal_push_d_invariant)
  have avg: "vs \<noteq> [] \<and> length vs < 2 ^ 53 \<and> (\<forall>v \<in> set vs. bounded_by (2 powi (b + 1)) v)"
    if "?avg k = Some vs" for k vs
  proof -
    have "vs \<noteq> [] \<and> length vs \<le> 0 + length [0..<?n] \<and>
      (\<forall>v \<in> set vs. bounded_by (2 powi (b + 1)) v)"
      using inv that by blast
    moreover have "0 + length [0..<?n] = ?n" by simp
    ultimately show ?thesis using len by linarith
  qed
  have P: "bounded_by (2 powi (b + 1)) (?P j)" for j
  proof (cases "?avg (Some j)")
    case None
    then show ?thesis by simp
  next
    case (Some vs)
    then have "vs \<noteq> []" "\<forall>v \<in> set vs. bounded_by (2 powi (b + 1)) v" "length vs < 2 ^ 53"
      using avg [of "Some j" vs] by simp_all
    then show ?thesis using Some mean_bounded [OF b'(2,3)] by simp
  qed
  have "seasonal ?D ! i = ?P (i mod seasonLength)"
    using i pos by (simp add: D pat imod_def elem_opt_def elem_def)
  then show "bounded_by (2 powi (b + 1)) (seasonal ?D ! i)" using P by simp
qed

lemma tolerance_small:
  assumes "(m::real) \<le> 2 ^ 20"
  shows "2 powi (- 50) * m + 2 powi (- 1072) \<le> 1 / 10 ^ 9"
proof -
  have a: "(2::real) powi (- 50) * 2 ^ 20 \<le> 932 / 10 ^ 12" by simp
  have "(2::real) powi (- 1072) \<le> 2 powi (- 50)" by (simp only: two_powi_le_iff)
  moreover have "(2::real) powi (- 50) \<le> 1 / 10 ^ 15" by simp
  ultimately have b: "(2::real) powi (- 1072) \<le> 1 / 10 ^ 15" by linarith
  have p: "(0::real) \<le> 2 powi (- 50)" by simp
  have "2 powi (- 50) * m \<le> 2 powi (- 50) * 2 ^ 20" using assms p by (rule mult_left_mono)
  then show ?thesis using a b by simp
qed

lemma within_tol_mono: "within_tol a x y \<Longrightarrow> a \<le> b \<Longrightarrow> within_tol b x y"
  by (cases x; cases y) simp_all

text \<open>
  C6 (amended). For every input series and season length, the trend, seasonal and
  residual sequences computed in double precision each have the length of the input. At
  every index where the original value x, the trend t and the seasonal component s are
  finite with \<open>|x| + |t| + |s| \<le> 2^1000\<close>, the double sum trend + seasonal + residual is
  finite and differs from x by at most \<open>2^-50 * (|x| + |t| + |s|) + 2^-1072\<close>. For a
  positive season length and a series of fewer than \<open>2^53\<close> finite values of magnitude at
  most \<open>2^18\<close>, the sum is within 1e-9 of the original value at every index.
\<close>

theorem decomposeTimeSeries_double_roundtrip:
  assumes "D = decomposeTimeSeries_double data seasonLength"
  shows "length (trend D) = length data \<and>
         length (seasonal D) = length data \<and>
         length (residual D) = length data \<and>
         (\<forall>i x t s. i < length data \<and> data ! i = Num x \<and> trend D ! i = Num t \<and>
              seasonal D ! i = Num s \<and> \<bar>x\<bar> + \<bar>t\<bar> + \<bar>s\<bar> \<le> 2 powi 1000 \<longrightarrow>
            within_tol (2 powi (- 50) * (\<bar>x\<bar> + \<bar>t\<bar> + \<bar>s\<bar>) + 2 powi (- 1072)) (data ! i)
              (dadd (dadd (trend D ! i) (seasonal D ! i)) (residual D ! i))) \<and>
         (0 < seasonLength \<and> length data < 2 ^ 53 \<and> (\<forall>v \<in> set data. bounded_by (2 ^ 18) v) \<longrightarrow>
            (\<forall>i < length data.
               within_tol (1 / 10 ^ 9) (data ! i)
                 (dadd (dadd (trend D ! i) (seasonal D ! i)) (residual D ! i))))"
proof -
  let ?n = "length data"
  let ?tr = "map (trend_at_d data (seasonLength div 2)) [0..<?n]"
  obtain pattern where D: "D =
       \<lparr>trend = ?tr,
         seasonal = map (\<lambda>i. elem_opt pattern (imod i seasonLength)) [0..<?n],
         residual = map (\<lambda>i. dsub (dsub (data ! i) (?tr ! i))
                              (elem_opt pattern (imod i seasonLength))) [0..<?n]\<rparr>"
    using decomposeTimeSeries_double_shape [of data seasonLength] assms by blast
  have res: "residual D ! i = dsub (dsub (data ! i) (trend D ! i)) (seasonal D ! i)"
    if "i < ?n" for i
    using that by (simp add: D)
  have main: "within_tol (2 powi (- 50) * (\<bar>x\<bar> + \<bar>t\<bar> + \<bar>s\<bar>) + 2 powi (- 1072)) (data ! i)
              (dadd (dadd (trend D ! i) (seasonal D ! i)) (residual D ! i))"
    if "i < ?n" "data ! i = Num x" "trend D ! i = Num t" "seasonal D ! i = Num s"
      "\<bar>x\<bar> + \<bar>t\<bar> + \<bar>s\<bar> \<le> 2 powi 1000" for i x t s
    using roundtrip_error [OF that(5)] by (simp only: res [OF that(1)] that(2,3,4))
  have small: "within_tol (1 / 10 ^ 9) (data ! i)
              (dadd (dadd (trend D ! i) (seasonal D ! i)) (residual D ! i))"
    if pos: "0 < seasonLength" and len: "?n < 2 ^ 53"
      and all: "\<forall>v \<in> set data. bounded_by (2 ^ 18) v" and i: "i < ?n" for i
  proof -
    have p18: "(2::real) powi 18 = 2 ^ 18" "(2::real) powi (18 + 1) = 2 ^ 19" by simp_all
    have all': "\<forall>v \<in> set data. bounded_by (2 powi 18) v" using all by (simp only: p18)
    have "bounded_by (2 powi 18) (data ! i)" using all' i by simp
    then obtain x where x: "data ! i = Num x" "\<bar>x\<bar> \<le> 2 powi 18" by (rule bounded_by_Num)
    have "bounded_by (2 powi 18) (trend D ! i)"
      unfolding assms by (rule decomposeTimeSeries_double_bounded(1) [OF _ _ all' len pos i]) simp_all
    then obtain t where t: "trend D ! i = Num t" "\<bar>t\<bar> \<le> 2 powi 18" by (rule bounded_by_Num)
    have "bounded_by (2 powi (18 + 1)) (seasonal D ! i)"
      unfolding assms by (rule decomposeTimeSeries_double_bounded(2) [OF _ _ all' len pos i]) simp_all
    then obtain s where s: "seasonal D ! i = Num s" "\<bar>s\<bar> \<le> 2 powi (18 + 1)"
      by (rule bounded_by_Num)
    have m: "\<bar>x\<bar> + \<bar>t\<bar> + \<bar>s\<bar> \<le> 2 ^ 20" using x(2) t(2) s(2) unfolding p18 by simp
    have "(2::real) powi 20 \<le> 2 powi 1000" by (simp only: two_powi_le_iff)
    then have "(2::real) ^ 20 \<le> 2 powi 1000" by simp
    then have "\<bar>x\<bar> + \<bar>t\<bar> + \<bar>s\<bar> \<le> 2 powi 1000" using m by linarith
    then have "within_tol (2 powi (- 50) * (\<bar>x\<bar> + \<bar>t\<bar> + \<bar>s\<bar>) + 2 powi (- 1072)) (data ! i)
              (dadd (dadd (trend D ! i) (seasonal D ! i)) (residual D ! i))"
      using i x(1) t(1) s(1) by (intro main)
    then show ?thesis using tolerance_small [OF m] by (rule within_tol_mono)
  qed
  have len: "length (trend D) = ?n" "length (seasonal D) = ?n" "length (residual D) = ?n"
    by (simp_all add: D)
  show ?thesis using len main small by blast
qed

lemma fl64_halves:
  assumes "numeral p < (2::int) ^ 53"
  shows "fl64 (numeral p / 2) = Num (numeral p / 2)"
  using fl64_representable [of "numeral p" "- 1"] assms by simp

lemma fl64_quarters:
  assumes "numeral p < (2::int) ^ 53"
  shows "fl64 (numeral p / 4) = Num (numeral p / 4)"
  using fl64_representable [of "numeral p" "- 2"] assms by simp

lemma fl64_one: "fl64 1 = Num 1"
  using fl64_nat [of 1] by simp

lemma decompose_small:
  "decomposeTimeSeries_double [Num 3, Num 5, Num 10] 2 =
     \<lparr>trend = [Num 4, Num 6, Num (15 / 2)],
      seasonal = [Num (3 / 4), Num (- 1), Num (3 / 4)],
      residual = [Num (- (7 / 4)), Num 0, Num (7 / 4)]\<rparr>"
  by (simp add: decomposeTimeSeries_double_def Let_def trend_at_d_def seasonal_push_d_def
      dsum_def jlen_def set_at_def new_Array_def elem_opt_def elem_def imod_def
      fl64_numeral fl64_minus fl64_halves fl64_quarters fl64_one fl64_zero upt_conv_Cons)

theorem decomposeTimeSeries_double_roundtrip_witness:
  "decomposeTimeSeries_double [Num 3, Num 5, Num 10] 2 =
     \<lparr>trend = [Num 4, Num 6, Num (15 / 2)],
      seasonal = [Num (3 / 4), Num (- 1), Num (3 / 4)],
      residual = [Num (- (7 / 4)), Num 0, Num (7 / 4)]\<rparr> \<and>
   \<bar>5\<bar> + \<bar>6\<bar> + \<bar>- 1\<bar> \<le> (2::real) powi 1000 \<and>
   within_tol (2 powi (- 50) * (\<bar>5\<bar> + \<bar>6\<bar> + \<bar>- 1\<bar>) + 2 powi (- 1072)) (Num 5)
     (dadd (dadd (Num 6) (Num (- 1))) (Num 0)) \<and>
   bounded_by (2 ^ 18) (Num 3) \<and> bounded_by (2 ^ 18) (Num 5) \<and> bounded_by (2 ^ 18) (Num 10) \<and>
   within_tol (1 / 10 ^ 9) (Num 3) (dadd (dadd (Num 4) (Num (3 / 4))) (Num (- (7 / 4)))) \<and>
   within_tol (1 / 10 ^ 9) (Num 5) (dadd (dadd (Num 6) (Num (- 1))) (Num 0)) \<and>
   within_tol (1 / 10 ^ 9) (Num 10) (dadd (dadd (Num (15 / 2)) (Num (3 / 4))) (Num (7 / 4)))"
proof -
  let ?data = "[Num 3, Num 5, Num 10]"
  let ?D = "\<lparr>trend = [Num 4, Num 6, Num (15 / 2)],
      seasonal = [Num (3 / 4), Num (- 1), Num (3 / 4)],
      residual = [Num (- (7 / 4)), Num 0, Num (7 / 4)]\<rparr>"
  have D: "?D = decomposeTimeSeries_double ?data 2" by (simp only: decompose_small)
  note rt = decomposeTimeSeries_double_roundtrip [OF D]
  have "(2::real) powi 4 \<le> 2 powi 1000" by (simp only: two_powi_le_iff)
  then have m: "\<bar>5\<bar> + \<bar>6\<bar> + \<bar>- 1\<bar> \<le> (2::real) powi 1000" by simp
  have "1 < length ?data \<and> ?data ! 1 = Num 5 \<and> trend ?D ! 1 = Num 6 \<and>
      seasonal ?D ! 1 = Num (- 1) \<and> \<bar>5\<bar> + \<bar>6\<bar> + \<bar>- 1\<bar> \<le> (2::real) powi 1000"
    using m by simp
  then have "within_tol (2 powi (- 50) * (\<bar>5\<bar> + \<bar>6\<bar> + \<bar>- 1\<bar>) + 2 powi (- 1072)) (?data ! 1)
     (dadd (dadd (trend ?D ! 1) (seasonal ?D ! 1)) (residual ?D ! 1))"
    using rt by blast
  then have 1: "within_tol (2 powi (- 50) * (\<bar>5\<bar> + \<bar>6\<bar> + \<bar>- 1\<bar>) + 2 powi (- 1072)) (Num 5)
     (dadd (dadd (Num 6) (Num (- 1))) (Num 0))"
    by simp
  have b: "bounded_by (2 ^ 18) (Num 3)" "bounded_by (2 ^ 18) (Num 5)" "bounded_by (2 ^ 18) (Num 10)"
    by simp_all
  then have "(0::nat) < 2 \<and> length ?data < 2 ^ 53 \<and> (\<forall>v \<in> set ?data. bounded_by (2 ^ 18) v)"
    by simp
  then have all: "\<forall>i < length ?data. within_tol (1 / 10 ^ 9) (?data ! i)
                 (dadd (dadd (trend ?D ! i) (seasonal ?D ! i)) (residual ?D ! i))"
    using rt by blast
  have 2: "within_tol (1 / 10 ^ 9) (Num 3) (dadd (dadd (Num 4) (Num (3 / 4))) (Num (- (7 / 4))))"
    using all [rule_format, of 0] by simp
  have 3: "within_tol (1 / 10 ^ 9) (Num 5) (dadd (dadd (Num 6) (Num (- 1))) (Num 0))"
    using all [rule_format, of 1] by simp
  have 4: "within_tol (1 / 10 ^ 9) (Num 10) (dadd (dadd (Num (15 / 2)) (Num (3 / 4))) (Num (7 / 4)))"
    using all [rule_format, of 2] by simp
  show ?thesis using decompose_small m 1 b 2 3 4 by blast
qed

lemma big:
  "fl64 (2 ^ 60) = Num (2 ^ 60)"
  "fl64 (2 ^ 60 + 1) = Num (2 ^ 60)"
  "fl64 (2 ^ 59) = Num (2 ^ 59)"
  "fl64 (2 ^ 59 - 1) = Num (2 ^ 59)"
proof -
  show "fl64 (2 ^ 60) = Num (2 ^ 60)" using fl64_representable [of 1 60] by simp
  show "fl64 (2 ^ 59) = Num (2 ^ 59)" using fl64_representable [of 1 59] by simp
  show "fl64 (2 ^ 60 + 1) = Num (2 ^ 60)"
    by (subst fl64_at [of 60]) (simp_all add: round_half_even_def)
  show "fl64 (2 ^ 59 - 1) = Num (2 ^ 59)"
    by (subst fl64_at [of 58]) (simp_all add: round_half_even_def)
qed

lemma decompose_big:
  "decomposeTimeSeries_double [Num (2 ^ 60), Num 1] 7 =
     \<lparr>trend = [Num (2 ^ 59), Num (2 ^ 59)],
      seasonal = [Num (2 ^ 59), Num (- (2 ^ 59))],
      residual = [Num 0, Num 0]\<rparr>"
  using big
  by (simp add: decomposeTimeSeries_double_def Let_def trend_at_d_def seasonal_push_d_def
      dsum_def jlen_def set_at_def new_Array_def elem_opt_def elem_def imod_def
      fl64_minus fl64_zero upt_conv_Cons)

text \<open>
  The series \<open>[2^60, 1]\<close> with the default season length 7. Both trend values are
  \<open>2^59\<close> (the sum \<open>2^60 + 1\<close> rounds to \<open>2^60\<close>), the seasonal component at index 1 is
  \<open>1 - 2^59\<close> rounded, that is \<open>-2^59\<close>, and the residual is 0: the three add up to 0 where
  the original value is 1.
\<close>

theorem decomposeTimeSeries_double_counterexample:
  "[Num (2 ^ 60), Num 1] ! 1 = Num 1 \<and>
   dadd (dadd (trend (decomposeTimeSeries_double [Num (2 ^ 60), Num 1] 7) ! 1)
              (seasonal (decomposeTimeSeries_double [Num (2 ^ 60), Num 1] 7) ! 1))
        (residual (decomposeTimeSeries_double [Num (2 ^ 60), Num 1] 7) ! 1) = Num 0 \<and>
   \<not> within_tol (1 / 10 ^ 9) (Num 1) (Num 0)"
  using decompose_big by (simp add: fl64_zero)

end
